theory Spec2Isabelle
  imports Main "HOL-Library.Word" "HOL-Library.Mapping"
begin

unbundle bit_operations_syntax

text \<open>
  A shallow embedding of the versioned label-mapping core of DVID:
  \<^item> the packed per-supervoxel entry \<open>vmap\<close> and the version-aware map \<open>SVMap\<close> of
    \<open>datatype/labelmap/equiv.go\<close>;
  \<^item> the run-length codec, the size index pass \<open>computeSizes\<close> and \<open>GetSparseVol\<close> of
    the labels64 denormalisation code;
  \<^item> the tar export \<open>sendTarfile\<close> and the tar ingest \<open>ingestTarfile\<close> of
    \<open>datatype/tarsupervoxels/tarsupervoxels.go\<close>.
  Go errors and panics are values of the type \<open>error\<close>; functions of other packages
  (the version DAG, the key-value store, \<open>fmt.Sscanf\<close>) are parameters. The
  definitions come first, the proofs after them.
\<close>

section \<open>Machine types and byte codecs\<close>

type_synonym byte = "8 word"
type_synonym uint8 = "8 word"
type_synonym uint32 = "32 word"
type_synonym int32 = "32 word"
type_synonym uint64 = "64 word"

text \<open>\<open>dvid.VersionID\<close>: the 32-bit version id handed out by the version DAG.\<close>

type_synonym VersionID = "32 word"

text \<open>
  Every error return and every run-time panic of the modelled functions is a value of
  this type. \<open>Panic\<close> is a Go run-time panic (index or slice bounds out of range, nil
  dereference); the other constructors are the error values built at the named places.
\<close>

datatype error =
    Panic
  | VersionLimit          \<comment> \<open>"can only have 256 active versions of data instance mapping"\<close>
  | AncestryError         \<comment> \<open>error returned by \<open>datastore.GetAncestry\<close>\<close>
  | NilStarts             \<comment> \<open>"Cannot encode run with nil slice of start points"\<close>
  | NilLengths            \<comment> \<open>"Cannot encode run with nil slice of lengths"\<close>
  | LengthMismatch        \<comment> \<open>"Cannot encode runs with %d start points and %d lengths"\<close>
  | MalformedRLE          \<comment> \<open>"RLE encoding doesn't have correct # bytes: %d"\<close>
  | UnexpectedEOF         \<comment> \<open>\<open>io.EOF\<close> / \<open>io.ErrUnexpectedEOF\<close> out of \<open>binary.Read\<close>\<close>
  | NoSync                \<comment> \<open>"data %q is not synced with any labelmap instance"\<close>
  | EmptyLabel            \<comment> \<open>"label %d has no supervoxels"\<close>
  | InvalidName           \<comment> \<open>"file %d name is invalid, expect supervoxel+ext: %s"\<close>
  | BadExtension          \<comment> \<open>"file %d name has bad extension (expect %q): %s"\<close>
  | ReservedSupervoxel    \<comment> \<open>"supervoxel 0 is reserved and cannot have data saved under 0 id"\<close>

text \<open>
  A slice expression \<open>b[lo:hi]\<close> on a slice whose capacity equals its length (all
  slices below come out of \<open>make([]byte, n)\<close>): it panics outside the bounds.
\<close>

definition slice :: "byte list \<Rightarrow> nat \<Rightarrow> nat \<Rightarrow> error + byte list" where
  "slice b lo hi =
     (if lo \<le> hi \<and> hi \<le> length b then Inr (take (hi - lo) (drop lo b)) else Inl Panic)"

text \<open>The eight bytes \<open>binary.LittleEndian.PutUint64\<close> writes, least significant first.\<close>

definition le64 :: "uint64 \<Rightarrow> byte list" where
  "le64 v = [ucast v, ucast (drop_bit 8 v), ucast (drop_bit 16 v), ucast (drop_bit 24 v),
             ucast (drop_bit 32 v), ucast (drop_bit 40 v), ucast (drop_bit 48 v),
             ucast (drop_bit 56 v)]"

text \<open>
  \<open>binary.LittleEndian.Uint64(b)\<close>: reads \<open>b[0..7]\<close>; it panics when \<open>b\<close> is shorter
  than eight bytes.
\<close>

definition LittleEndian_Uint64 :: "byte list \<Rightarrow> error + uint64" where
  "LittleEndian_Uint64 b =
     (if length b < 8 then Inl Panic
      else Inr (ucast (b ! 0) OR push_bit 8 (ucast (b ! 1)) OR push_bit 16 (ucast (b ! 2))
             OR push_bit 24 (ucast (b ! 3)) OR push_bit 32 (ucast (b ! 4))
             OR push_bit 40 (ucast (b ! 5)) OR push_bit 48 (ucast (b ! 6))
             OR push_bit 56 (ucast (b ! 7))))"

text \<open>
  \<open>binary.LittleEndian.PutUint64(out[lo:hi], v)\<close> on the array \<open>out\<close>: the slice
  expression panics outside the bounds, \<open>PutUint64\<close> panics on a window shorter than
  eight bytes; otherwise bytes \<open>lo .. lo+7\<close> of the array are overwritten.
\<close>

definition PutUint64_window :: "byte list \<Rightarrow> nat \<Rightarrow> nat \<Rightarrow> uint64 \<Rightarrow> error + byte list" where
  "PutUint64_window out lo hi v =
     (if lo \<le> hi \<and> hi \<le> length out \<and> 8 \<le> hi - lo
      then Inr (take lo out @ le64 v @ drop (lo + 8) out)
      else Inl Panic)"

section \<open>labelmap/equiv.go: the packed versioned map entry\<close>

text \<open>
  Go slices are references to backing arrays. The memory is the list of arrays
  allocated so far; an address is an index into it. A \<open>vmap\<close> value is either the nil
  slice or a slice covering one whole allocated array (every \<open>vmap\<close> stored by this
  file comes out of \<open>make\<close> in \<open>modify\<close>).
\<close>

type_synonym mem = "byte list list"
type_synonym vmap = "nat option"

definition bytes_of :: "mem \<Rightarrow> vmap \<Rightarrow> byte list" where
  "bytes_of m vm = (case vm of None \<Rightarrow> [] | Some a \<Rightarrow> m ! a)"

text \<open>\<open>make([]byte, n)\<close>: a new zeroed array at the next free address.\<close>

definition make_slice :: "mem \<Rightarrow> nat \<Rightarrow> mem \<times> nat" where
  "make_slice m n = (m @ [replicate n 0], length m)"

text \<open>\<open>copy(dst, src)\<close>: the first \<open>min (len dst) (len src)\<close> bytes of \<open>dst\<close> are overwritten.\<close>

definition copy :: "byte list \<Rightarrow> byte list \<Rightarrow> byte list" where
  "copy dst src = take (length dst) src @ drop (length src) dst"

text \<open>
  The scan shared by \<open>value\<close> (lines 52-57) and \<open>modify\<close> (lines 70-78):
  \<open>for pos := 0; pos < len(vm); pos += 9 { if vm[pos] == vid { ... return } }\<close>.
  The result is the position at which the body returns, or \<open>None\<close> when the loop
  runs to its end.
\<close>

function find_entry :: "byte list \<Rightarrow> uint8 \<Rightarrow> nat \<Rightarrow> nat option" where
  "find_entry vm vid pos =
     (if pos < length vm
      then (if vm ! pos = vid then Some pos else find_entry vm vid (pos + 9))
      else None)"
  by pat_completeness auto
termination
  by (relation "measure (\<lambda>(vm, vid, pos). length vm - pos)") auto

declare find_entry.simps [simp del]

text \<open>\<open>vmap.value\<close>, the loop over the ancestry (lines 51-59).\<close>

fun vmap_value_loop :: "byte list \<Rightarrow> uint8 list \<Rightarrow> error + (uint64 \<times> bool)" where
  "vmap_value_loop vm [] = Inr (0, False)"
| "vmap_value_loop vm (vid # ancestry) =
     (case find_entry vm vid 0 of
        Some pos \<Rightarrow>
          (case slice vm (pos + 1) (pos + 9) of
             Inl e \<Rightarrow> Inl e
           | Inr b \<Rightarrow>
               (case LittleEndian_Uint64 b of
                  Inl e \<Rightarrow> Inl e
                | Inr label \<Rightarrow> Inr (label, True)))
      | None \<Rightarrow> vmap_value_loop vm ancestry)"

definition vmap_value :: "mem \<Rightarrow> vmap \<Rightarrow> uint8 list \<Rightarrow> error + (uint64 \<times> bool)" where
  "vmap_value m vm ancestry =
     (let b = bytes_of m vm; sz = length b
      in if sz = 0 then Inr (0, False) else vmap_value_loop b ancestry)"

text \<open>
  \<open>vmap.modify\<close>: returns the new memory, the slice \<open>out\<close> and \<open>changed\<close>. Only the
  array made in the call is written.
\<close>

definition vmap_modify ::
  "mem \<Rightarrow> vmap \<Rightarrow> uint8 \<Rightarrow> uint64 \<Rightarrow> error + (mem \<times> vmap \<times> bool)" where
  "vmap_modify m vm vid toLabel =
     (let src = bytes_of m vm in
      if length src = 0 then
        (let (m1, out) = make_slice m 9;
             m2 = m1[out := (m1 ! out)[0 := vid]]
         in case PutUint64_window (m2 ! out) 1 (length (m2 ! out)) toLabel of
              Inl e \<Rightarrow> Inl e
            | Inr b \<Rightarrow> Inr (m2[out := b], Some out, True))
      else
        (case find_entry src vid 0 of
           Some pos \<Rightarrow>
             (let (m1, out) = make_slice m (length src);
                  m2 = m1[out := copy (m1 ! out) src]
              in case PutUint64_window (m2 ! out) (pos + 1) (pos + 9) toLabel of
                   Inl e \<Rightarrow> Inl e
                 | Inr b \<Rightarrow> Inr (m2[out := b], Some out, True))
         | None \<Rightarrow>
             (let pos = length src;
                  (m1, out) = make_slice m (pos + 9);
                  m2 = m1[out := copy (m1 ! out) src];
                  m3 = m2[out := (m2 ! out)[pos := vid]]
              in case PutUint64_window (m3 ! out) (pos + 1) (length (m3 ! out)) toLabel of
                   Inl e \<Rightarrow> Inl e
                 | Inr b \<Rightarrow> Inr (m3[out := b], Some out, True))))"

text \<open>
  The 9-byte records of a packed entry: record \<open>k\<close> is bytes \<open>9k .. 9k+8\<close>, its first
  byte the short version id, the other eight the label, little-endian.
\<close>

definition record_at :: "byte list \<Rightarrow> nat \<Rightarrow> byte list" where
  "record_at b k = take 9 (drop (9 * k) b)"

definition records :: "byte list \<Rightarrow> byte list list" where
  "records b = map (record_at b) [0..<length b div 9]"

definition record_vid :: "byte list \<Rightarrow> uint8" where
  "record_vid r = r ! 0"

definition record_label :: "byte list \<Rightarrow> error + uint64" where
  "record_label r = LittleEndian_Uint64 (drop 1 r)"

section \<open>labelmap/equiv.go: SVMap\<close>

text \<open>
  The maps \<open>fm\<close>, \<open>versions\<close> and \<open>versionsRev\<close> are made by \<open>getMapping\<close> and never
  nil; \<open>ancestry\<close> starts nil (\<open>None\<close>) and is made on first use by \<open>getAncestry\<close>.
\<close>

record SVMap =
  fm :: "(uint64, vmap) mapping"
  versions :: "VersionID \<rightharpoonup> uint8"
  versionsRev :: "uint8 \<rightharpoonup> VersionID"
  ancestry :: "(VersionID \<rightharpoonup> uint8 list) option"
  numVersions :: uint8

text \<open>The SVMap as \<open>getMapping\<close> creates it (lines 284-287).\<close>

definition new_SVMap :: SVMap where
  "new_SVMap = \<lparr>fm = Mapping.empty, versions = Map.empty, versionsRev = Map.empty,
                ancestry = None, numVersions = 0\<rparr>"

definition createShortVersion :: "SVMap \<Rightarrow> VersionID \<Rightarrow> error + (uint8 \<times> SVMap)" where
  "createShortVersion svm v =
     (case versions svm v of
        Some vid \<Rightarrow> Inr (vid, svm)
      | None \<Rightarrow>
          if numVersions svm = 255 then Inl VersionLimit
          else (let vid = numVersions svm
                in Inr (vid, svm\<lparr>versions := (versions svm)(v \<mapsto> vid),
                                  versionsRev := (versionsRev svm)(vid \<mapsto> v),
                                  numVersions := numVersions svm + 1\<rparr>)))"

text \<open>\<open>svm.fm[supervoxel]\<close>: a missing key reads as the nil slice.\<close>

definition fm_get :: "SVMap \<Rightarrow> uint64 \<Rightarrow> vmap" where
  "fm_get svm supervoxel =
     (case Mapping.lookup (fm svm) supervoxel of None \<Rightarrow> None | Some vm \<Rightarrow> vm)"

definition MapSupervoxel ::
  "mem \<Rightarrow> SVMap \<Rightarrow> VersionID \<Rightarrow> uint64 \<Rightarrow> uint64 \<Rightarrow> error + (mem \<times> SVMap)" where
  "MapSupervoxel m svm v supervoxel label =
     (case createShortVersion svm v of
        Inl err \<Rightarrow> Inl err
      | Inr (vid, svm1) \<Rightarrow>
          (case vmap_modify m (fm_get svm1 supervoxel) vid label of
             Inl e \<Rightarrow> Inl e
           | Inr (m', newvm, changed) \<Rightarrow>
               Inr (m', if changed
                        then svm1\<lparr>fm := Mapping.update supervoxel newvm (fm svm1)\<rparr>
                        else svm1)))"

text \<open>
  \<open>getAncestry\<close>. \<open>datastore.GetAncestry\<close> belongs to the version DAG and is a
  parameter: it returns the versions from \<open>v\<close> to the root, or an error.
  \<open>ancestors[1:]\<close> panics on an empty slice. The cache \<open>svm.ancestry\<close> is updated.
\<close>

definition getAncestry ::
  "(VersionID \<Rightarrow> error + VersionID list) \<Rightarrow> SVMap \<Rightarrow> VersionID \<Rightarrow> SVMap \<times> (error + uint8 list)" where
  "getAncestry GetAncestry svm v =
     (let cache = (case ancestry svm of None \<Rightarrow> Map.empty | Some c \<Rightarrow> c);
          svm1 = svm\<lparr>ancestry := Some cache\<rparr>;
          finish = (\<lambda>svm2 anc. (svm2, Inr (case versions svm2 v of
                                              Some vid \<Rightarrow> vid # anc
                                            | None \<Rightarrow> anc)))
      in case cache v of
           Some anc \<Rightarrow> finish svm1 anc
         | None \<Rightarrow>
             (case GetAncestry v of
                Inl err \<Rightarrow> (svm1, Inl err)
              | Inr ancestors \<Rightarrow>
                  if ancestors = [] then (svm1, Inl Panic)
                  else (let anc = List.map_filter (versions svm1) (tl ancestors)
                        in finish (svm1\<lparr>ancestry := Some (cache(v \<mapsto> anc))\<rparr>) anc)))"

text \<open>
  \<open>SVMap.MappedLabel\<close> on a possibly nil receiver. An error out of \<open>getAncestry\<close> is
  logged and answered with \<open>(label, false)\<close>; a panic propagates.
\<close>

definition MappedLabel ::
  "(VersionID \<Rightarrow> error + VersionID list) \<Rightarrow> mem \<Rightarrow> SVMap option \<Rightarrow> VersionID \<Rightarrow> uint64
     \<Rightarrow> SVMap option \<times> (error + (uint64 \<times> bool))" where
  "MappedLabel GetAncestry m svmp v label =
     (case svmp of
        None \<Rightarrow> (None, Inr (label, False))
      | Some svm \<Rightarrow>
          if Mapping.is_empty (fm svm) then (Some svm, Inr (label, False))
          else (case Mapping.lookup (fm svm) label of
                  None \<Rightarrow> (Some svm, Inr (label, False))
                | Some vm \<Rightarrow>
                    (case getAncestry GetAncestry svm v of
                       (svm', r) \<Rightarrow>
                         (case r of
                            Inl err \<Rightarrow>
                              if err = Panic then (Some svm', Inl Panic)
                              else (Some svm', Inr (label, False))
                          | Inr anc \<Rightarrow> (Some svm', vmap_value m vm anc)))))"

text \<open>
  A run of first writes: \<open>createShortVersion\<close> for each version of a list in
  turn, stopping at the first error.
\<close>

fun allocate :: "SVMap \<Rightarrow> VersionID list \<Rightarrow> error + SVMap" where
  "allocate svm [] = Inr svm"
| "allocate svm (v # vs) =
     (case createShortVersion svm v of
        Inl e \<Rightarrow> Inl e
      | Inr (vid, svm') \<Rightarrow> allocate svm' vs)"

text \<open>
  The SVMap reached from \<open>new_SVMap\<close> after first writes for the versions
  \<open>0, 1, \<dots>, n - 1\<close> in this order (lemma \<open>allocate_allocated\<close> below): version
  \<open>k\<close> holds short id \<open>k\<close>.
\<close>

definition allocated :: "nat \<Rightarrow> SVMap" where
  "allocated n =
     \<lparr>fm = Mapping.empty,
      versions = (\<lambda>v. if unat v < n then Some (word_of_nat (unat v)) else None),
      versionsRev = (\<lambda>i. if unat i < n then Some (word_of_nat (unat i)) else None),
      ancestry = None,
      numVersions = word_of_nat n\<rparr>"

text \<open>
  A small version DAG for the examples: version 1 is the root and version 2 its child.
  \<open>mem_one\<close>, \<open>svm_one\<close> are the memory and the SVMap after
  \<open>MapSupervoxel(1, 6, 11)\<close> on a new SVMap; \<open>mem_two\<close>, \<open>svm_two\<close> after
  \<open>MapSupervoxel(2, 5, 10)\<close> on top of that (lemmas \<open>MapSupervoxel_one\<close> and
  \<open>MapSupervoxel_two\<close> below).
\<close>

definition GetAncestry_two :: "VersionID \<Rightarrow> error + VersionID list" where
  "GetAncestry_two v = (if v = 1 then Inr [1] else if v = 2 then Inr [2, 1] else Inl AncestryError)"

definition mem_one :: mem where
  "mem_one = [[0, 11, 0, 0, 0, 0, 0, 0, 0]]"

definition svm_one :: SVMap where
  "svm_one = \<lparr>fm = Mapping.update 6 (Some 0) Mapping.empty,
              versions = [1 \<mapsto> 0], versionsRev = [0 \<mapsto> 1], ancestry = None, numVersions = 1\<rparr>"

definition mem_two :: mem where
  "mem_two = [[0, 11, 0, 0, 0, 0, 0, 0, 0], [1, 10, 0, 0, 0, 0, 0, 0, 0]]"

definition svm_two :: SVMap where
  "svm_two = \<lparr>fm = Mapping.update 5 (Some 1) (Mapping.update 6 (Some 0) Mapping.empty),
              versions = [1 \<mapsto> 0, 2 \<mapsto> 1], versionsRev = [0 \<mapsto> 1, 1 \<mapsto> 2],
              ancestry = None, numVersions = 2\<rparr>"

section \<open>labels64 denormalisation: RLE codec, size index, sparse volumes\<close>

text \<open>\<open>dvid.Point3d\<close> is \<open>[3]int32\<close>; \<open>dvid.VersionLocalID\<close> is an opaque local id.\<close>

type_synonym Point3d = "int32 \<times> int32 \<times> int32"
type_synonym VersionLocalID = nat

text \<open>The four bytes \<open>binary.Write(buf, binary.LittleEndian, x)\<close> appends for a 32-bit \<open>x\<close>.\<close>

definition le32 :: "32 word \<Rightarrow> byte list" where
  "le32 v = [ucast v, ucast (drop_bit 8 v), ucast (drop_bit 16 v), ucast (drop_bit 24 v)]"

text \<open>The value \<open>binary.Read\<close> decodes, little-endian, from four bytes already read.\<close>

definition LittleEndian_Uint32 :: "byte list \<Rightarrow> 32 word" where
  "LittleEndian_Uint32 b =
     ucast (b ! 0) OR push_bit 8 (ucast (b ! 1)) OR push_bit 16 (ucast (b ! 2))
       OR push_bit 24 (ucast (b ! 3))"

text \<open>The eight bytes \<open>binary.BigEndian.PutUint64\<close> writes, most significant first.\<close>

definition be64 :: "uint64 \<Rightarrow> byte list" where
  "be64 v = [ucast (drop_bit 56 v), ucast (drop_bit 48 v), ucast (drop_bit 40 v),
             ucast (drop_bit 32 v), ucast (drop_bit 24 v), ucast (drop_bit 16 v),
             ucast (drop_bit 8 v), ucast v]"

datatype KeyType =
  KeyInverseMap | KeyForwardMap | KeySpatialMap | KeyLabelSpatialMap | KeyLabelSizes

text \<open>\<open>byte(t)\<close> for the \<open>iota\<close> constants of lines 714-734.\<close>

fun KeyType_byte :: "KeyType \<Rightarrow> byte" where
  "KeyType_byte KeyInverseMap = 0"
| "KeyType_byte KeyForwardMap = 1"
| "KeyType_byte KeySpatialMap = 2"
| "KeyType_byte KeyLabelSpatialMap = 3"
| "KeyType_byte KeyLabelSizes = 4"

text \<open>
  \<open>datastore.DataKey\<close> as far as these functions fill it: the version and the index
  bytes (the dataset and instance ids are fixed by the receiver \<open>d\<close>).
\<close>

record DataKey =
  version :: VersionLocalID
  index :: "byte list"

text \<open>
  \<open>NewLabelSpatialMapKey\<close>. \<open>zyxSize\<close> is \<open>dvid.IndexZYXSize\<close> and \<open>block\<close> the
  bytes of the block index; both come from package \<open>dvid\<close>.
\<close>

definition NewLabelSpatialMapKey ::
  "nat \<Rightarrow> VersionLocalID \<Rightarrow> uint64 \<Rightarrow> byte list \<Rightarrow> DataKey" where
  "NewLabelSpatialMapKey zyxSize vID label block =
     \<lparr>version = vID,
      index = KeyType_byte KeyLabelSpatialMap # be64 label @ copy (replicate zyxSize 0) block\<rparr>"

definition NewLabelSizesKey :: "VersionLocalID \<Rightarrow> uint64 \<Rightarrow> uint64 \<Rightarrow> DataKey" where
  "NewLabelSizesKey vID sz label =
     \<lparr>version = vID, index = KeyType_byte KeyLabelSizes # be64 sz @ be64 label\<rparr>"

text \<open>
  \<open>encodeRuns\<close>. A Go slice argument is \<open>None\<close> when nil. Writes into a
  \<open>bytes.Buffer\<close> do not fail.
\<close>

definition encode_run :: "Point3d \<times> int32 \<Rightarrow> byte list" where
  "encode_run r = (case r of ((x, y, z), l) \<Rightarrow> le32 x @ le32 y @ le32 z @ le32 l)"

definition encodeRuns :: "Point3d list option \<Rightarrow> int32 list option \<Rightarrow> error + byte list" where
  "encodeRuns starts lengths =
     (case starts of
        None \<Rightarrow> Inl NilStarts
      | Some ss \<Rightarrow>
          (case lengths of
             None \<Rightarrow> Inl NilLengths
           | Some ls \<Rightarrow>
               if length ss \<noteq> length ls then Inl LengthMismatch
               else Inr (concat (map encode_run (zip ss ls)))))"

text \<open>\<open>len(s)\<close> of a possibly nil slice.\<close>

definition len :: "'a list option \<Rightarrow> nat" where
  "len s = (case s of None \<Rightarrow> 0 | Some xs \<Rightarrow> length xs)"

text \<open>
  The loop of \<open>statsRuns\<close> (lines 826-841) over the unread part of the buffer.
  \<open>buf.Read(coord)\<close> takes up to 12 bytes and reports \<open>io.EOF\<close> only on an empty
  buffer; \<open>binary.Read\<close> needs four more bytes and fails with \<open>io.EOF\<close> or
  \<open>io.ErrUnexpectedEOF\<close> otherwise.
\<close>

function statsRuns_loop :: "byte list \<Rightarrow> int32 \<Rightarrow> int32 \<Rightarrow> error + (int32 \<times> int32)" where
  "statsRuns_loop buf numVoxels numRuns =
     (let n = min 12 (length buf) in
      if n = 0 then Inr (numVoxels, numRuns)
      else (let buf1 = drop n buf in
            if length buf1 < 4 then Inl UnexpectedEOF
            else statsRuns_loop (drop 4 buf1)
                   (numVoxels + LittleEndian_Uint32 (take 4 buf1)) (numRuns + 1)))"
  by pat_completeness auto
termination
  by (relation "measure (\<lambda>(buf, numVoxels, numRuns). length buf)") auto

declare statsRuns_loop.simps [simp del]

definition statsRuns :: "byte list \<Rightarrow> error + (int32 \<times> int32)" where
  "statsRuns encoding =
     (if length encoding mod 16 \<noteq> 0 then Inl MalformedRLE
      else statsRuns_loop encoding 0 0)"

text \<open>The run lengths stored in an encoding: bytes \<open>16i+12 .. 16i+15\<close> of run \<open>i\<close>.\<close>

definition run_lengths :: "byte list \<Rightarrow> int32 list" where
  "run_lengths encoding =
     map (\<lambda>i. LittleEndian_Uint32 (take 4 (drop (16 * i + 12) encoding)))
       [0..<length encoding div 16]"

text \<open>
  \<open>computeSizes\<close>. A chunk is its key and value. The batch collects the records put
  and hands them to the store on \<open>Commit\<close>; \<open>Commit\<close> is the storage engine's and a
  parameter here.
\<close>

record Chunk =
  K :: DataKey
  V :: "byte list"

record Batch =
  puts :: "(DataKey \<times> byte list) list"
  committed :: "(DataKey \<times> byte list) list"

definition batch_Put :: "Batch \<Rightarrow> DataKey \<Rightarrow> byte list \<Rightarrow> Batch" where
  "batch_Put b k v = b\<lparr>puts := puts b @ [(k, v)]\<rparr>"

text \<open>A \<open>Commit\<close> that succeeds: the records put so far reach the store.\<close>

definition Commit_ok :: "Batch \<Rightarrow> error + Batch" where
  "Commit_ok b = Inr (b\<lparr>committed := committed b @ puts b, puts := []\<rparr>)"

definition BATCH_SIZE :: nat where
  "BATCH_SIZE = 10000"

text \<open>
  The loop of lines 868-909 over the chunks received before the closing \<open>nil\<close>. The
  result is the error logged on an early return, if any, and the batch.
\<close>

fun computeSizes_loop ::
  "(Batch \<Rightarrow> error + Batch) \<Rightarrow> VersionLocalID \<Rightarrow> Chunk list \<Rightarrow> uint64 \<Rightarrow> uint64 \<Rightarrow> nat \<Rightarrow> bool
     \<Rightarrow> Batch \<Rightarrow> error option \<times> Batch" where
  "computeSizes_loop Commit versionID [] curLabel curSize putsInBatch notFirst batch =
     (let key = NewLabelSizesKey versionID curSize curLabel;
          batch1 = batch_Put batch key []
      in case Commit batch1 of
           Inl err \<Rightarrow> (Some err, batch1)
         | Inr batch2 \<Rightarrow> (None, batch2))"
| "computeSizes_loop Commit versionID (chunk # rest) curLabel curSize putsInBatch notFirst batch =
     (case slice (index (K chunk)) 1 9 of
        Inl e \<Rightarrow> (Some e, batch)
      | Inr b \<Rightarrow>
     (case LittleEndian_Uint64 b of
        Inl e \<Rightarrow> (Some e, batch)
      | Inr label \<Rightarrow>
     (case statsRuns (V chunk) of
        Inl err \<Rightarrow> (Some err, batch)
      | Inr (numVoxels, numRuns) \<Rightarrow>
          if notFirst \<and> label \<noteq> curLabel then
            (let key = NewLabelSizesKey versionID curSize curLabel;
                 batch1 = batch_Put batch key [];
                 putsInBatch1 = putsInBatch + 1
             in if putsInBatch1 mod BATCH_SIZE = 0 then
                  (case Commit batch1 of
                     Inl err \<Rightarrow> (Some err, batch1)
                   | Inr batch2 \<Rightarrow>
                       computeSizes_loop Commit versionID rest label
                         (0 + scast numVoxels) putsInBatch1 True batch2)
                else computeSizes_loop Commit versionID rest label
                       (0 + scast numVoxels) putsInBatch1 True batch1)
          else computeSizes_loop Commit versionID rest label
                 (curSize + scast numVoxels) putsInBatch True batch)))"

text \<open>
  \<open>computeSizes\<close>: \<open>batcher\<close> is \<open>None\<close> when the engine has no batch support
  (nothing is written then); \<open>notFirst\<close> starts as \<open>true\<close> (line 867).
\<close>

definition computeSizes ::
  "(Batch \<Rightarrow> error + Batch) option \<Rightarrow> VersionLocalID \<Rightarrow> Chunk list \<Rightarrow> error option \<times> Batch" where
  "computeSizes batcher versionID sizeCh =
     (case batcher of
        None \<Rightarrow> (None, \<lparr>puts = [], committed = []\<rparr>)
      | Some Commit \<Rightarrow>
          computeSizes_loop Commit versionID sizeCh 0 0 0 True \<lparr>puts = [], committed = []\<rparr>)"

text \<open>\<open>GetSparseVol\<close> and its chunk handler.\<close>

record sparseOp =
  versionID :: VersionLocalID
  encoding :: "byte list"
  numBlocks :: uint32
  numRuns :: uint32

definition PayloadBinary :: byte where
  "PayloadBinary = 0"

definition processLabelRuns :: "sparseOp \<Rightarrow> Chunk \<Rightarrow> sparseOp" where
  "processLabelRuns op chunk =
     op\<lparr>numBlocks := numBlocks op + 1,
        encoding := encoding op @ V chunk,
        numRuns := numRuns op + word_of_nat (length (V chunk) div 16)\<rparr>"

text \<open>\<open>binary.LittleEndian.PutUint32(b[lo:hi], v)\<close>, with the panics of the slice
  expression and of a window shorter than four bytes.\<close>

definition PutUint32_window :: "byte list \<Rightarrow> nat \<Rightarrow> nat \<Rightarrow> uint32 \<Rightarrow> error + byte list" where
  "PutUint32_window out lo hi v =
     (if lo \<le> hi \<and> hi \<le> length out \<and> 4 \<le> hi - lo
      then Inr (take lo out @ le32 v @ drop (lo + 4) out)
      else Inl Panic)"

text \<open>
  \<open>LocalIDFromUUID\<close> and \<open>KeyValueGetter\<close> belong to the server and are passed as
  their results; the getter carries \<open>ProcessRange\<close>, which hands the chunks between the
  two keys to the handler in key order, or fails. \<open>minZYX\<close> and \<open>maxZYX\<close> are the
  bytes of \<open>dvid.MinIndexZYX\<close> and \<open>dvid.MaxIndexZYX\<close>.
\<close>

definition GetSparseVol ::
  "(error + VersionLocalID) \<Rightarrow> (error + (DataKey \<Rightarrow> DataKey \<Rightarrow> error + Chunk list))
     \<Rightarrow> nat \<Rightarrow> byte list \<Rightarrow> byte list \<Rightarrow> uint64 \<Rightarrow> error + byte list" where
  "GetSparseVol LocalIDFromUUID KeyValueGetter zyxSize minZYX maxZYX label =
     (case LocalIDFromUUID of
        Inl err \<Rightarrow> Inl err
      | Inr vID \<Rightarrow>
     (case KeyValueGetter of
        Inl err \<Rightarrow> Inl err
      | Inr ProcessRange \<Rightarrow>
          (let buf = [PayloadBinary] @ [3] @ [0] @ [0] @ le32 0 @ le32 0;
               firstKey = NewLabelSpatialMapKey zyxSize vID label minZYX;
               lastKey = NewLabelSpatialMapKey zyxSize vID label maxZYX;
               op = \<lparr>versionID = vID, encoding = buf, numBlocks = 0, numRuns = 0\<rparr>
           in case ProcessRange firstKey lastKey of
                Inl err \<Rightarrow> Inl err
              | Inr chunks \<Rightarrow>
                  (let op1 = foldl processLabelRuns op chunks
                   in PutUint32_window (encoding op1) 8 12 (numRuns op1)))))"

section \<open>tarsupervoxels.go: tar export and ingest\<close>

text \<open>\<open>fmt.Sprintf("%d", n)\<close> for an unsigned number.\<close>

fun decimal :: "nat \<Rightarrow> string" where
  "decimal n = (if n < 10 then [''0123456789'' ! n]
                else decimal (n div 10) @ [''0123456789'' ! (n mod 10)])"

declare decimal.simps [simp del]

record tar_Header =
  Name :: string
  Size :: int
  Mode :: int
  ModTime :: nat

record fileData =
  header :: "tar_Header option"
  data :: "byte list option"
  err :: "error option"

text \<open>
  The key-value store as the export reads it. \<open>Get\<close> answers a missing key with nil
  data and no error (\<open>GetData\<close>, lines 317-324, tells the two apart that way);
  \<open>GetWithTimestamp\<close> is present when the store is a \<open>KeyValueTimestampGetter\<close>.
  Time is a number, the zero time 0.
\<close>

record 'k KeyValueDB =
  Get :: "'k \<Rightarrow> error + byte list option"
  GetWithTimestamp :: "('k \<Rightarrow> error + (byte list option \<times> nat)) option"

text \<open>
  \<open>getSupervoxelGoroutine\<close>: the values it sends on \<open>outCh\<close>, in order. \<open>NewTKey\<close>
  is given as a parameter. The \<open>done\<close> branch of the \<open>select\<close> is taken only after
  \<open>sendTarfile\<close> has returned.
\<close>

fun getSupervoxelGoroutine ::
  "'k KeyValueDB \<Rightarrow> (uint64 \<Rightarrow> string \<Rightarrow> error + 'k) \<Rightarrow> string \<Rightarrow> uint64 list \<Rightarrow> fileData list" where
  "getSupervoxelGoroutine db NewTKey Extension [] = []"
| "getSupervoxelGoroutine db NewTKey Extension (supervoxel # supervoxels) =
     (case NewTKey supervoxel Extension of
        Inl e \<Rightarrow> \<lparr>header = None, data = None, err = Some e\<rparr>
      | Inr tk \<Rightarrow>
          (case (case GetWithTimestamp db of
                   Some get \<Rightarrow> get tk
                 | None \<Rightarrow> (case Get db tk of Inl e \<Rightarrow> Inl e | Inr d \<Rightarrow> Inr (d, 0))) of
             Inl e \<Rightarrow> \<lparr>header = None, data = None, err = Some e\<rparr>
           | Inr (d, modTime) \<Rightarrow>
               \<lparr>header = Some \<lparr>Name = decimal (unat supervoxel) @ ''.'' @ Extension,
                                Size = int (len d), Mode = 493, ModTime = modTime\<rparr>,
                 data = d, err = None\<rparr>))
     # getSupervoxelGoroutine db NewTKey Extension supervoxels"

text \<open>
  The partition loop of \<open>sendTarfile\<close> (lines 434-440) over the supervoxels in the
  order \<open>range\<close> yields them; \<open>svlist\<close> answers a missing handler with the nil slice.
  The counter \<open>i\<close> is set before the loop and not changed in it.
\<close>

definition numHandlers :: nat where
  "numHandlers = 256"

fun partition_loop :: "uint64 list \<Rightarrow> nat \<Rightarrow> (nat \<Rightarrow> uint64 list) \<Rightarrow> (nat \<Rightarrow> uint64 list)" where
  "partition_loop [] i svlist = svlist"
| "partition_loop (supervoxel # supervoxels) i svlist =
     (let handler = i mod numHandlers;
          svs = svlist handler;
          svs = svs @ [supervoxel]
      in partition_loop supervoxels i (svlist(handler := svs)))"

text \<open>
  The writer loop (lines 452-465) over the values received from \<open>outCh\<close>. On a value
  with \<open>err\<close> set it returns the variable \<open>err\<close> of the enclosing function, which is
  nil there. The tar writer's own failures are the HTTP connection's and are left out.
\<close>

fun write_loop ::
  "fileData list \<Rightarrow> (tar_Header \<times> byte list option) list
     \<Rightarrow> (tar_Header \<times> byte list option) list \<times> error option" where
  "write_loop [] tw = (tw, None)"
| "write_loop (fd # rest) tw =
     (if err fd \<noteq> None then (tw, None)
      else (case header fd of
              Some hdr \<Rightarrow> write_loop rest (tw @ [(hdr, data fd)])
            | None \<Rightarrow> write_loop rest tw))"

text \<open>
  \<open>sendTarfile\<close>. The collaborators are passed as their results: the store, the synced
  labelmap (\<open>None\<close> when there is none) with its \<open>GetSupervoxels\<close> for the label, the
  root context and the version lookup. The channel delivers the workers' values; the
  model takes the workers in the order of their index.
\<close>

definition sendTarfile ::
  "(error + 'k KeyValueDB) \<Rightarrow> (error + uint64 list) option \<Rightarrow> error option \<Rightarrow> error option
     \<Rightarrow> (uint64 \<Rightarrow> string \<Rightarrow> error + 'k) \<Rightarrow> string
     \<Rightarrow> (tar_Header \<times> byte list option) list \<times> error option" where
  "sendTarfile GetKeyValueDB ldata getRootContext VersionFromUUID NewTKey Extension =
     (case GetKeyValueDB of
        Inl e \<Rightarrow> ([], Some e)
      | Inr db \<Rightarrow>
     (case ldata of
        None \<Rightarrow> ([], Some NoSync)
      | Some GetSupervoxels \<Rightarrow>
     (case getRootContext of
        Some e \<Rightarrow> ([], Some e)
      | None \<Rightarrow>
     (case VersionFromUUID of
        Some e \<Rightarrow> ([], Some e)
      | None \<Rightarrow>
     (case GetSupervoxels of
        Inl e \<Rightarrow> ([], Some e)
      | Inr supervoxels \<Rightarrow>
          if length supervoxels = 0 then ([], Some EmptyLabel)
          else (let svlist = partition_loop supervoxels 0 (\<lambda>handler. []);
                    outCh = concat (map (\<lambda>i. getSupervoxelGoroutine db NewTKey Extension (svlist i))
                                     [0..<numHandlers])
                in write_loop (take (length supervoxels) outCh) []))))))"

text \<open>
  \<open>ingestTarfile\<close>. The tar reader yields, for each call of \<open>Next\<close>, a header with the
  entry's name and body (the body may fail to read), or an error other than \<open>io.EOF\<close>
  with a nil header; the end of the list is \<open>io.EOF\<close>. \<open>Sscanf\<close> is
  \<open>fmt.Sscanf(name, "%d.%s", &supervoxel, &ext)\<close>, \<open>None\<close> when it reports an error or
  fewer than two items. The error of \<open>NewTKey\<close> is dropped by the code, so only the key
  it returns is passed. \<open>Put\<close> may fail as the backend decides.
\<close>

datatype tar_next = Entry string "error + byte list" | NextError

fun ingest_loop ::
  "(string \<Rightarrow> (uint64 \<times> string) option) \<Rightarrow> (uint64 \<Rightarrow> string \<Rightarrow> 'k)
     \<Rightarrow> ('k \<Rightarrow> byte list \<Rightarrow> error option) \<Rightarrow> string \<Rightarrow> tar_next list \<Rightarrow> ('k \<rightharpoonup> byte list)
     \<Rightarrow> error option \<times> ('k \<rightharpoonup> byte list)" where
  "ingest_loop Sscanf NewTKey Put Extension [] db = (None, db)"
| "ingest_loop Sscanf NewTKey Put Extension (NextError # rest) db = (Some Panic, db)"
| "ingest_loop Sscanf NewTKey Put Extension (Entry name body # rest) db =
     (case Sscanf name of
        None \<Rightarrow> (Some InvalidName, db)
      | Some (supervoxel, ext) \<Rightarrow>
          if ext \<noteq> Extension then (Some BadExtension, db)
          else if supervoxel = 0 then (Some ReservedSupervoxel, db)
          else (case body of
                  Inl e \<Rightarrow> (Some e, db)
                | Inr buf \<Rightarrow>
                    (let tk = NewTKey supervoxel ext
                     in case Put tk buf of
                          Some e \<Rightarrow> (Some e, db)
                        | None \<Rightarrow>
                            ingest_loop Sscanf NewTKey Put Extension rest (db(tk \<mapsto> buf)))))"

definition ingestTarfile ::
  "(error + ('k \<rightharpoonup> byte list)) \<Rightarrow> error option
     \<Rightarrow> (string \<Rightarrow> (uint64 \<times> string) option) \<Rightarrow> (uint64 \<Rightarrow> string \<Rightarrow> 'k)
     \<Rightarrow> ('k \<Rightarrow> byte list \<Rightarrow> error option) \<Rightarrow> string \<Rightarrow> tar_next list
     \<Rightarrow> error + (error option \<times> ('k \<rightharpoonup> byte list))" where
  "ingestTarfile GetKeyValueDB getRootContext Sscanf NewTKey Put Extension body =
     (case GetKeyValueDB of
        Inl e \<Rightarrow> Inl e
      | Inr db \<Rightarrow>
          (case getRootContext of
             Some e \<Rightarrow> Inl e
           | None \<Rightarrow> Inr (ingest_loop Sscanf NewTKey Put Extension body db)))"

text \<open>
  Example inputs of the labels64 functions: a label-to-block record for label 1 in
  version 0 whose value is the single run \<open>(0, 0, 0)\<close> of length 5 (the block index
  is 12 zero bytes), and an encoding of two runs of length \<open>0x7fffffff\<close> each.
\<close>

definition chunk_label_1 :: Chunk where
  "chunk_label_1 =
     \<lparr>K = NewLabelSpatialMapKey 12 0 1 (replicate 12 0),
      V = [0, 0, 0, 0,  0, 0, 0, 0,  0, 0, 0, 0,  5, 0, 0, 0]\<rparr>"

definition two_long_runs :: "byte list" where
  "two_long_runs =
     [0, 0, 0, 0,  0, 0, 0, 0,  0, 0, 0, 0,  255, 255, 255, 127,
      0, 0, 0, 0,  0, 0, 0, 0,  0, 0, 0, 0,  255, 255, 255, 127]"

text \<open>
  Modelled from the spec: the range scan of the ordered key-value store (the storage
  package's \<open>ProcessRange\<close> with two keys, a chunk operation and a handler is not
  under src/). The spec asks that range scans are ordered by byte-lexical key, and the
  bucket store's \<open>getKeysInRangeRaw\<close> keeps the keys \<open>k\<close> with
  \<open>bytes.Compare(k, minKey) >= 0 && bytes.Compare(k, maxKey) <= 0\<close> and sorts them. So
  the store is the list of its chunks in key order, and the scan hands over, in that
  order, the chunks of the first key's version whose index lies between the two indices
  in byte-lexical order (\<open>bytes_le\<close>, inclusive at both ends). It is used as an
  example store only.
\<close>

fun bytes_le :: "byte list \<Rightarrow> byte list \<Rightarrow> bool" where
  "bytes_le [] ys = True"
| "bytes_le (x # xs) [] = False"
| "bytes_le (x # xs) (y # ys) = (x < y \<or> (x = y \<and> bytes_le xs ys))"

definition ProcessRange_store :: "Chunk list \<Rightarrow> DataKey \<Rightarrow> DataKey \<Rightarrow> error + Chunk list" where
  "ProcessRange_store store firstKey lastKey =
     Inr (filter (\<lambda>c. version (K c) = version firstKey
                     \<and> bytes_le (index firstKey) (index (K c))
                     \<and> bytes_le (index (K c)) (index lastKey)) store)"

text \<open>
  An example store in key order: label 1 in two blocks (two runs, then one run),
  label 2 in one block, and one size-index key.
\<close>

definition store_two_labels :: "Chunk list" where
  "store_two_labels =
     [\<lparr>K = \<lparr>version = 0, index = [3,  0, 0, 0, 0, 0, 0, 0, 1,  0, 0, 0, 0,  0, 0, 0, 0,  0, 0, 0, 0]\<rparr>,
       V = [1, 0, 0, 0,  2, 0, 0, 0,  3, 0, 0, 0,  5, 0, 0, 0,
            1, 0, 0, 0,  3, 0, 0, 0,  3, 0, 0, 0,  4, 0, 0, 0]\<rparr>,
      \<lparr>K = \<lparr>version = 0, index = [3,  0, 0, 0, 0, 0, 0, 0, 1,  0, 0, 0, 0,  0, 0, 0, 0,  0, 0, 0, 1]\<rparr>,
       V = [32, 0, 0, 0,  2, 0, 0, 0,  3, 0, 0, 0,  7, 0, 0, 0]\<rparr>,
      \<lparr>K = \<lparr>version = 0, index = [3,  0, 0, 0, 0, 0, 0, 0, 2,  0, 0, 0, 0,  0, 0, 0, 0,  0, 0, 0, 0]\<rparr>,
       V = [9, 0, 0, 0,  9, 0, 0, 0,  9, 0, 0, 0,  1, 0, 0, 0]\<rparr>,
      \<lparr>K = \<lparr>version = 0, index = [4,  0, 0, 0, 0, 0, 0, 0, 9,  0, 0, 0, 0, 0, 0, 0, 1]\<rparr>,
       V = []\<rparr>]"

text \<open>
  An example store for the tar export: it holds three bytes for supervoxel 8 and
  nothing for any other key. Keys are the pair of supervoxel and extension.
\<close>

definition db_only_8 :: "(uint64 \<times> string) KeyValueDB" where
  "db_only_8 =
     \<lparr>Get = (\<lambda>tk. if tk = (8, ''dat'') then Inr (Some [1, 2, 3]) else Inr None),
      GetWithTimestamp = None\<rparr>"

text \<open>
  The conditions \<open>ingestTarfile\<close> checks on a name: it parses, the extension is
  the instance's, the supervoxel is not 0.
\<close>

definition name_ok :: "(string \<Rightarrow> (uint64 \<times> string) option) \<Rightarrow> string \<Rightarrow> string \<Rightarrow> bool" where
  "name_ok Sscanf Extension name =
     (case Sscanf name of
        None \<Rightarrow> False
      | Some (supervoxel, ext) \<Rightarrow> ext = Extension \<and> supervoxel \<noteq> 0)"

text \<open>
  An entry that passes every check of one loop iteration: its name is fine, its body
  can be read and the store accepts the \<open>Put\<close>.
\<close>

fun good_entry ::
  "(string \<Rightarrow> (uint64 \<times> string) option) \<Rightarrow> (uint64 \<Rightarrow> string \<Rightarrow> 'k)
     \<Rightarrow> ('k \<Rightarrow> byte list \<Rightarrow> error option) \<Rightarrow> string \<Rightarrow> tar_next \<Rightarrow> bool" where
  "good_entry Sscanf NewTKey Put Extension (Entry name (Inr buf)) =
     (case Sscanf name of
        None \<Rightarrow> False
      | Some (supervoxel, ext) \<Rightarrow>
          ext = Extension \<and> supervoxel \<noteq> 0 \<and> Put (NewTKey supervoxel ext) buf = None)"
| "good_entry Sscanf NewTKey Put Extension (Entry name (Inl e)) = False"
| "good_entry Sscanf NewTKey Put Extension NextError = False"

text \<open>
  The store after the \<open>Put\<close> of one entry: its bytes under the key \<open>NewTKey\<close>
  builds from the supervoxel and extension of its name.
\<close>

fun store_entry ::
  "(string \<Rightarrow> (uint64 \<times> string) option) \<Rightarrow> (uint64 \<Rightarrow> string \<Rightarrow> 'k)
     \<Rightarrow> ('k \<rightharpoonup> byte list) \<Rightarrow> tar_next \<Rightarrow> ('k \<rightharpoonup> byte list)" where
  "store_entry Sscanf NewTKey db (Entry name (Inr buf)) =
     (case Sscanf name of
        None \<Rightarrow> db
      | Some (supervoxel, ext) \<Rightarrow> db(NewTKey supervoxel ext \<mapsto> buf))"
| "store_entry Sscanf NewTKey db (Entry name (Inl e)) = db"
| "store_entry Sscanf NewTKey db NextError = db"

text \<open>
  An example \<open>Sscanf\<close> that knows two names.
\<close>

definition Sscanf_example :: "string \<Rightarrow> (uint64 \<times> string) option" where
  "Sscanf_example name =
     (if name = ''7.dat'' then Some (7, ''dat'')
      else if name = ''0.dat'' then Some (0, ''dat'')
      else None)"

section \<open>Proofs: byte codecs and the packed entry\<close>

lemma le64_length: "length (le64 v) = 8"
  by (simp add: le64_def)

lemma ucast_byte: "(ucast (ucast (v::64 word) :: 8 word) :: 64 word) = take_bit 8 v"
  by (rule bit_word_eqI) (simp add: bit_simps)

lemma cat_byte: "take_bit k (v::64 word) OR push_bit k (take_bit 8 (drop_bit k v)) = take_bit (k + 8) v"
  by (rule bit_word_eqI) (auto simp add: bit_simps)

lemma Uint64_le64: "LittleEndian_Uint64 (le64 v) = Inr v"
proof -
  have "take_bit 8 v OR push_bit 8 (take_bit 8 (drop_bit 8 v))
          OR push_bit 16 (take_bit 8 (drop_bit 16 v))
          OR push_bit 24 (take_bit 8 (drop_bit 24 v))
          OR push_bit 32 (take_bit 8 (drop_bit 32 v))
          OR push_bit 40 (take_bit 8 (drop_bit 40 v))
          OR push_bit 48 (take_bit 8 (drop_bit 48 v))
          OR push_bit 56 (take_bit 8 (drop_bit 56 v)) = take_bit 64 v"
    using cat_byte [of 8 v] cat_byte [of 16 v] cat_byte [of 24 v] cat_byte [of 32 v]
      cat_byte [of 40 v] cat_byte [of 48 v] cat_byte [of 56 v]
    by (simp add: or.assoc [symmetric])
  moreover have "take_bit 64 v = v"
    by (rule take_bit_word_eq_self) simp
  ultimately show ?thesis
    by (simp add: LittleEndian_Uint64_def le64_def ucast_byte)
qed

lemma find_entry_Some_at:
  "find_entry vm vid pos = Some p \<Longrightarrow> p < length vm \<and> vm ! p = vid"
proof (induction vm vid pos rule: find_entry.induct)
  case (1 vm vid pos)
  from "1.prems" show ?case
    by (subst (asm) find_entry.simps) (auto split: if_splits dest: "1.IH")
qed

lemma find_entry_Some_step:
  "find_entry vm vid pos = Some p \<Longrightarrow> \<exists>j. p = pos + 9 * j"
proof (induction vm vid pos rule: find_entry.induct)
  case (1 vm vid pos)
  show ?case
  proof (cases "pos < length vm \<and> vm ! pos \<noteq> vid")
    case False
    with "1.prems" have "p = pos"
      by (subst (asm) find_entry.simps) (auto split: if_splits)
    then show ?thesis by simp
  next
    case True
    with "1.prems" have rec: "find_entry vm vid (pos + 9) = Some p"
      by (subst (asm) find_entry.simps) simp
    from True have a: "pos < length vm" and b: "vm ! pos \<noteq> vid" by simp_all
    from "1.IH" [OF a b rec] obtain j where "p = pos + 9 + 9 * j" by blast
    then have "p = pos + 9 * Suc j" by simp
    then show ?thesis by blast
  qed
qed

lemma find_entry_Some_first:
  "find_entry vm vid pos = Some p \<Longrightarrow> pos + 9 * i < p \<Longrightarrow> vm ! (pos + 9 * i) \<noteq> vid"
proof (induction vm vid pos arbitrary: i rule: find_entry.induct)
  case (1 vm vid pos)
  show ?case
  proof (cases "pos < length vm \<and> vm ! pos \<noteq> vid")
    case False
    with "1.prems"(1) have "p = pos"
      by (subst (asm) find_entry.simps) (auto split: if_splits)
    with "1.prems"(2) show ?thesis by simp
  next
    case True
    with "1.prems"(1) have rec: "find_entry vm vid (pos + 9) = Some p"
      by (subst (asm) find_entry.simps) simp
    from True have a: "pos < length vm" and b: "vm ! pos \<noteq> vid" by simp_all
    show ?thesis
    proof (cases i)
      case 0 with b show ?thesis by simp
    next
      case (Suc k)
      with "1.prems"(2) have "pos + 9 + 9 * k < p" by simp
      from "1.IH" [OF a b rec this] Suc show ?thesis by (simp add: algebra_simps)
    qed
  qed
qed

lemma find_entry_None:
  "find_entry vm vid pos = None \<Longrightarrow> pos + 9 * i < length vm \<Longrightarrow> vm ! (pos + 9 * i) \<noteq> vid"
proof (induction vm vid pos arbitrary: i rule: find_entry.induct)
  case (1 vm vid pos)
  from "1.prems" have lt: "pos < length vm" by simp
  from "1.prems"(1) lt have ne: "vm ! pos \<noteq> vid" and rec: "find_entry vm vid (pos + 9) = None"
    by (subst (asm) find_entry.simps, simp split: if_splits)+
  show ?case
  proof (cases i)
    case 0 with ne show ?thesis by simp
  next
    case (Suc k)
    with "1.prems"(2) have "pos + 9 + 9 * k < length vm" by simp
    from "1.IH" [OF lt ne rec this] Suc show ?thesis by (simp add: algebra_simps)
  qed
qed

lemma length_records: "length (records b) = length b div 9"
  by (simp add: records_def)

lemma records_nth: "k < length b div 9 \<Longrightarrow> records b ! k = record_at b k"
  by (simp add: records_def)

lemma record_at_append_left:
  assumes "length a mod 9 = 0" "k < length a div 9"
  shows "record_at (a @ b) k = record_at a k"
proof -
  from assms(1) obtain n where n: "length a = 9 * n" by (auto simp: mod_eq_0_iff_dvd)
  with assms(2) have "9 * k + 9 \<le> length a" by simp
  then show ?thesis by (simp add: record_at_def)
qed

lemma record_at_append_right:
  assumes "length a mod 9 = 0"
  shows "record_at (a @ b) (length a div 9 + k) = record_at b k"
proof -
  from assms(1) obtain n where n: "length a = 9 * n" by (auto simp: mod_eq_0_iff_dvd)
  then have "9 * (length a div 9 + k) = length a + 9 * k" by simp
  then show ?thesis by (simp add: record_at_def)
qed

lemma records_append:
  assumes "length a mod 9 = 0"
  shows "records (a @ b) = records a @ records b"
proof -
  let ?n = "length a div 9" and ?k = "length b div 9"
  from assms obtain n where n: "length a = 9 * n" by (auto simp: mod_eq_0_iff_dvd)
  then have len: "(length a + length b) div 9 = ?n + ?k" by simp
  have "[0..<?n + ?k] = [0..<?n] @ [?n..<?n + ?k]"
    by (rule upt_add_eq_append) simp
  then have "map (record_at (a @ b)) [0..<?n + ?k]
          = map (record_at (a @ b)) [0..<?n] @ map (record_at (a @ b)) [?n..<?n + ?k]"
    by (simp only: map_append)
  also have "map (record_at (a @ b)) [0..<?n] = map (record_at a) [0..<?n]"
    using assms by (simp add: record_at_append_left)
  also have "map (record_at (a @ b)) [?n..<?n + ?k] = map (record_at b) [0..<?k]"
    using assms by (intro nth_equalityI) (simp_all add: record_at_append_right)
  finally show ?thesis by (simp add: records_def len)
qed

lemma records_single: "length r = 9 \<Longrightarrow> records r = [r]"
  by (simp add: records_def record_at_def)

lemma vmap_modify_found:
  assumes len: "length (bytes_of m vm) mod 9 = 0"
    and found: "find_entry (bytes_of m vm) vid 0 = Some p"
  shows "vmap_modify m vm vid l =
           Inr (m @ [take (p + 1) (bytes_of m vm) @ le64 l @ drop (p + 9) (bytes_of m vm)],
                Some (length m), True)"
proof -
  let ?src = "bytes_of m vm"
  from find_entry_Some_at [OF found] have p: "p < length ?src" by simp
  from find_entry_Some_step [OF found] obtain j where j: "p = 9 * j" by auto
  from len obtain n where n: "length ?src = 9 * n" by (auto simp: mod_eq_0_iff_dvd)
  from p j n have "j < n" by simp
  with j n have hi: "p + 9 \<le> length ?src" by simp
  from p have ne: "length ?src \<noteq> 0" by auto
  have cp: "copy (replicate (length ?src) 0) ?src = ?src"
    by (simp add: copy_def)
  from hi have put: "PutUint64_window ?src (Suc p) (p + 9) l
                  = Inr (take (p + 1) ?src @ le64 l @ drop (p + 9) ?src)"
    by (simp add: PutUint64_window_def add.commute)
  show ?thesis
    unfolding vmap_modify_def Let_def make_slice_def
    using ne found by (simp add: cp put)
qed

lemma vmap_modify_new:
  assumes nf: "find_entry (bytes_of m vm) vid 0 = None"
  shows "vmap_modify m vm vid l =
           Inr (m @ [bytes_of m vm @ vid # le64 l], Some (length m), True)"
proof -
  let ?src = "bytes_of m vm"
  have cp: "copy (replicate (length ?src + 9) 0) ?src = ?src @ replicate 9 0"
    by (simp add: copy_def)
  have upd: "(?src @ replicate 9 0)[length ?src := vid] = ?src @ vid # replicate 8 0"
    by (simp add: list_update_append numeral_eq_Suc)
  have put: "PutUint64_window (?src @ vid # replicate 8 0) (Suc (length ?src))
               (length (?src @ vid # replicate 8 0)) l = Inr (?src @ vid # le64 l)"
    by (simp add: PutUint64_window_def)
  have put0: "PutUint64_window (vid # replicate 8 0) (Suc 0) (length (vid # replicate 8 (0::byte))) l
                = Inr (vid # le64 l)"
    by (simp add: PutUint64_window_def)
  have upd0: "(replicate 9 (0::byte))[0 := vid] = vid # replicate 8 0"
    by (simp add: numeral_eq_Suc)
  show ?thesis
  proof (cases "length ?src = 0")
    case True
    then show ?thesis
      unfolding vmap_modify_def Let_def make_slice_def
      by (simp add: upd0 PutUint64_window_def)
  next
    case False
    then show ?thesis
      unfolding vmap_modify_def Let_def make_slice_def
      using nf by (simp add: cp upd PutUint64_window_def)
  qed
qed

lemma record_vid_nth:
  assumes "k < length b div 9"
  shows "record_vid (records b ! k) = b ! (9 * k)"
proof -
  from assms have "9 * k < length b" by simp
  with assms show ?thesis
    by (simp add: records_nth record_at_def record_vid_def)
qed

lemma records_found:
  assumes len: "length src mod 9 = 0" and j: "p = 9 * j" and p: "p < length src"
  shows "records (take (p + 1) src @ le64 l @ drop (p + 9) src)
           = (records src)[j := src ! p # le64 l]"
proof -
  let ?A = "take p src" and ?R = "take 9 (drop p src)" and ?B = "drop (p + 9) src"
  let ?R' = "src ! p # le64 l"
  from len obtain n where n: "length src = 9 * n" by (auto simp: mod_eq_0_iff_dvd)
  from p j n have "j < n" by simp
  with j n have hi: "p + 9 \<le> length src" by simp
  from p j have lenA: "length ?A = 9 * j" by simp
  then have modA: "length ?A mod 9 = 0" by simp
  from hi have lenR: "length ?R = 9" by simp
  have lenR': "length ?R' = 9" by (simp add: le64_length)
  have "drop 9 (drop p src) = ?B" by (simp add: add.commute)
  then have "drop p src = ?R @ ?B"
    using append_take_drop_id [of 9 "drop p src"] by simp
  then have src: "src = ?A @ ?R @ ?B"
    using append_take_drop_id [of p src] by simp
  have "records src = records (?A @ ?R @ ?B)" using src by simp
  also have "\<dots> = records ?A @ [?R] @ records ?B"
    using modA lenR by (simp add: records_append records_single)
  finally have rs: "records src = records ?A @ [?R] @ records ?B" .
  from p have "take (p + 1) src = ?A @ [src ! p]"
    by (simp add: take_Suc_conv_app_nth)
  then have "records (take (p + 1) src @ le64 l @ ?B) = records (?A @ ?R' @ ?B)" by simp
  also have "\<dots> = records ?A @ records (?R' @ ?B)"
    using modA by (rule records_append)
  also have "records (?R' @ ?B) = records ?R' @ records ?B"
    using lenR' by (intro records_append) simp
  also have "records ?R' = [?R']"
    using lenR' by (rule records_single)
  finally have out: "records (take (p + 1) src @ le64 l @ ?B) = records ?A @ [?R'] @ records ?B" .
  have "length (records ?A) = j" using lenA by (simp add: length_records)
  then have "(records ?A @ [?R] @ records ?B)[j := ?R'] = records ?A @ [?R'] @ records ?B"
    by (simp add: list_update_append)
  with rs out show ?thesis by simp
qed

lemma records_new:
  assumes "length src mod 9 = 0"
  shows "records (src @ vid # le64 l) = records src @ [vid # le64 l]"
  using assms by (simp add: records_append records_single le64_length)

lemma filter_update_eq:
  assumes "distinct (map f xs)" "j < length xs" "f (xs ! j) = v" "f r = v"
  shows "filter (\<lambda>x. f x = v) (xs[j := r]) = [r]"
    and "filter (\<lambda>x. f x \<noteq> v) (xs[j := r]) = filter (\<lambda>x. f x \<noteq> v) xs"
    and "map f (xs[j := r]) = map f xs"
proof -
  let ?A = "take j xs" and ?B = "drop (Suc j) xs"
  from assms(2) have xs: "xs = ?A @ xs ! j # ?B" by (rule id_take_nth_drop)
  from assms(2) have upd: "xs[j := r] = ?A @ r # ?B" by (rule upd_conv_take_nth_drop)
  from assms(1) have "distinct (map f (?A @ xs ! j # ?B))" using xs by simp
  with assms(3) have nA: "\<forall>a\<in>set ?A. f a \<noteq> v" and nB: "\<forall>b\<in>set ?B. f b \<noteq> v"
    by (auto simp: image_iff)
  from nA nB assms(4) show "filter (\<lambda>x. f x = v) (xs[j := r]) = [r]"
    by (simp add: upd filter_empty_conv)
  have "filter (\<lambda>x. f x \<noteq> v) xs = filter (\<lambda>x. f x \<noteq> v) (?A @ xs ! j # ?B)"
    using xs by simp
  with assms(3,4) show "filter (\<lambda>x. f x \<noteq> v) (xs[j := r]) = filter (\<lambda>x. f x \<noteq> v) xs"
    by (simp add: upd)
  from assms(2,3,4) show "map f (xs[j := r]) = map f xs"
    by (simp add: map_update list_update_same_conv)
qed

lemma record_label_new: "record_label (vid # le64 l) = Inr l"
  by (simp add: record_label_def Uint64_le64)

lemma record_vid_new: "record_vid (vid # bs) = vid"
  by (simp add: record_vid_def)

lemma bytes_of_append:
  "(case vm of None \<Rightarrow> True | Some a \<Rightarrow> a < length m) \<Longrightarrow> bytes_of (m @ [b]) vm = bytes_of m vm"
  by (cases vm) (simp_all add: bytes_of_def nth_append)


text \<open>
  Claim C10. For a packed entry whose length is a multiple of 9 and whose short version
  ids are pairwise distinct, \<open>modify\<close> succeeds and returns a slice over an array
  allocated in the call: the memory after the call is the memory before it with one
  array appended, so the input slice reads the same bytes as before. The new entry has
  a length that is a multiple of 9 and pairwise distinct short version ids, exactly one
  record for \<open>vid\<close>, which decodes to \<open>label\<close>, and its records for every other
  short version id are those of the input, byte for byte and in the same order.
\<close>

theorem vmap_modify_preserves_structure:
  assumes len: "length (bytes_of m vm) mod 9 = 0"
    and dist: "distinct (map record_vid (records (bytes_of m vm)))"
    and valid: "case vm of None \<Rightarrow> True | Some a \<Rightarrow> a < length m"
  shows "\<exists>b. vmap_modify m vm vid label = Inr (m @ [b], Some (length m), True)
           \<and> bytes_of (m @ [b]) vm = bytes_of m vm
           \<and> length b mod 9 = 0
           \<and> distinct (map record_vid (records b))
           \<and> map record_label (filter (\<lambda>r. record_vid r = vid) (records b)) = [Inr label]
           \<and> filter (\<lambda>r. record_vid r \<noteq> vid) (records b)
               = filter (\<lambda>r. record_vid r \<noteq> vid) (records (bytes_of m vm))"
proof (cases "find_entry (bytes_of m vm) vid 0")
  case None
  let ?src = "bytes_of m vm" and ?r = "vid # le64 label"
  let ?b = "?src @ ?r"
  have run: "vmap_modify m vm vid label = Inr (m @ [?b], Some (length m), True)"
    using None by (rule vmap_modify_new)
  have recs: "records ?b = records ?src @ [?r]"
    using len by (rule records_new)
  have fresh: "record_vid r \<noteq> vid" if "r \<in> set (records ?src)" for r
  proof -
    from that obtain k where k: "k < length ?src div 9" and r: "r = records ?src ! k"
      by (auto simp: in_set_conv_nth length_records)
    from k have "0 + 9 * k < length ?src" by simp
    from find_entry_None [OF None this] k r show ?thesis
      by (simp add: record_vid_nth)
  qed
  have 1: "length ?b mod 9 = 0"
    using len by (simp add: le64_length)
  have 2: "distinct (map record_vid (records ?b))"
    using dist fresh by (auto simp: recs record_vid_new)
  have f1: "filter (\<lambda>r. record_vid r = vid) (records ?src) = []"
    using fresh by (simp add: filter_empty_conv)
  have f2: "filter (\<lambda>r. record_vid r \<noteq> vid) (records ?src) = records ?src"
    using fresh by (simp add: filter_id_conv)
  have 3: "map record_label (filter (\<lambda>r. record_vid r = vid) (records ?b)) = [Inr label]"
    by (simp add: recs f1 record_vid_new record_label_new)
  have 4: "filter (\<lambda>r. record_vid r \<noteq> vid) (records ?b)
             = filter (\<lambda>r. record_vid r \<noteq> vid) (records ?src)"
    by (simp add: recs record_vid_new)
  have 0: "bytes_of (m @ [?b]) vm = bytes_of m vm"
    using valid by (rule bytes_of_append)
  show ?thesis
    by (intro exI [of _ ?b] conjI) (rule run 0 1 2 3 4)+
next
  case (Some p)
  let ?src = "bytes_of m vm"
  let ?r = "?src ! p # le64 label"
  let ?b = "take (p + 1) ?src @ le64 label @ drop (p + 9) ?src"
  have run: "vmap_modify m vm vid label = Inr (m @ [?b], Some (length m), True)"
    using len Some by (rule vmap_modify_found)
  from find_entry_Some_at [OF Some] have p: "p < length ?src" and at: "?src ! p = vid"
    by simp_all
  from find_entry_Some_step [OF Some] obtain j where j: "p = 9 * j" by auto
  from len obtain n where n: "length ?src = 9 * n" by (auto simp: mod_eq_0_iff_dvd)
  from p j n have "j < n" by simp
  with n have jn: "j < length (records ?src)" by (simp add: length_records)
  have recs: "records ?b = (records ?src)[j := ?r]"
    using len j p by (rule records_found)
  have vj: "record_vid (records ?src ! j) = vid"
    using jn j at by (simp add: record_vid_nth length_records)
  have vr: "record_vid ?r = vid"
    using at by (simp add: record_vid_new)
  note upd = filter_update_eq [OF dist jn vj vr]
  from \<open>j < n\<close> j n have hi: "p + 9 \<le> length ?src" by simp
  then have "length ?b = length ?src" by (simp add: le64_length)
  with len have 1: "length ?b mod 9 = 0" by simp
  have 2: "distinct (map record_vid (records ?b))"
    using dist by (simp only: recs upd(3))
  have 3: "map record_label (filter (\<lambda>r. record_vid r = vid) (records ?b)) = [Inr label]"
    by (simp only: recs upd(1)) (simp add: at record_label_new)
  have 4: "filter (\<lambda>r. record_vid r \<noteq> vid) (records ?b)
             = filter (\<lambda>r. record_vid r \<noteq> vid) (records ?src)"
    by (simp only: recs upd(2))
  have 0: "bytes_of (m @ [?b]) vm = bytes_of m vm"
    using valid by (rule bytes_of_append)
  show ?thesis
    by (intro exI [of _ ?b] conjI) (rule run 0 1 2 3 4)+
qed


text \<open>
  The theorem at the entry \<open>(1, 10)\<close> with a new record for short version id 2.
\<close>

theorem vmap_modify_preserves_structure_witness:
  "length (bytes_of [[1, 10, 0, 0, 0, 0, 0, 0, 0]] (Some 0)) mod 9 = 0
   \<and> distinct (map record_vid (records (bytes_of [[1, 10, 0, 0, 0, 0, 0, 0, 0]] (Some 0))))
   \<and> (\<exists>b. vmap_modify [[1, 10, 0, 0, 0, 0, 0, 0, 0]] (Some 0) 2 20
              = Inr ([[1, 10, 0, 0, 0, 0, 0, 0, 0]] @ [b], Some 1, True)
          \<and> length b mod 9 = 0
          \<and> distinct (map record_vid (records b))
          \<and> map record_label (filter (\<lambda>r. record_vid r = 2) (records b)) = [Inr 20])"
proof -
  let ?m = "[[1, 10, 0, 0, 0, 0, 0, 0, 0 :: byte]]"
  have a: "length (bytes_of ?m (Some 0)) mod 9 = 0"
    by (simp add: bytes_of_def)
  have b: "distinct (map record_vid (records (bytes_of ?m (Some 0))))"
    by (simp add: bytes_of_def records_def)
  have c: "case Some (0::nat) of None \<Rightarrow> True | Some a \<Rightarrow> a < length ?m"
    by simp
  from vmap_modify_preserves_structure [OF a b c, of 2 20] a b show ?thesis
    by auto
qed

text \<open>
  The loop of \<open>vmap.value\<close> on a well-formed entry: the result is decided by
  the first short version id of the ancestry that has a record, and is the label of
  the first record with that id; with no such id it is \<open>(0, false)\<close>.
\<close>

lemma find_entry_None_vids:
  assumes len: "length b mod 9 = 0" and nf: "find_entry b vid 0 = None"
  shows "vid \<notin> set (map record_vid (records b))"
proof
  assume "vid \<in> set (map record_vid (records b))"
  then obtain k where k: "k < length b div 9" and v: "record_vid (records b ! k) = vid"
    by (auto simp: in_set_conv_nth length_records)
  from k have "0 + 9 * k < length b" by simp
  from find_entry_None [OF nf this] k v show False
    by (simp add: record_vid_nth)
qed

lemma find_entry_Some_record:
  assumes len: "length b mod 9 = 0" and f: "find_entry b vid 0 = Some p"
  shows "\<exists>j. p = 9 * j \<and> j < length (records b)
           \<and> List.find (\<lambda>r. record_vid r = vid) (records b) = Some (records b ! j)
           \<and> slice b (p + 1) (p + 9) = Inr (drop 1 (records b ! j))"
proof -
  from find_entry_Some_at [OF f] have p: "p < length b" and at: "b ! p = vid" by simp_all
  from find_entry_Some_step [OF f] obtain j where j: "p = 9 * j" by auto
  from len obtain n where n: "length b = 9 * n" by (auto simp: mod_eq_0_iff_dvd)
  from p j n have jn: "j < n" by simp
  with n have jl: "j < length (records b)" by (simp add: length_records)
  from jn j n have hi: "p + 9 \<le> length b" by simp
  have vj: "record_vid (records b ! j) = vid"
    using jl j at by (simp add: record_vid_nth length_records)
  have first: "record_vid (records b ! i) \<noteq> vid" if "i < j" for i
  proof -
    from that j have "0 + 9 * i < p" by simp
    from find_entry_Some_first [OF f this] that jl show ?thesis
      by (simp add: record_vid_nth length_records)
  qed
  have fnd: "List.find (\<lambda>r. record_vid r = vid) (records b) = Some (records b ! j)"
    unfolding find_Some_iff using jl vj first by blast
  have "records b ! j = take 9 (drop p b)"
    using jl j by (simp add: records_nth length_records record_at_def)
  then have "drop 1 (records b ! j) = take 8 (drop (p + 1) b)"
    by (simp add: drop_take)
  with hi have sl: "slice b (p + 1) (p + 9) = Inr (drop 1 (records b ! j))"
    by (simp add: slice_def)
  from j jl fnd sl show ?thesis by blast
qed

lemma vmap_value_loop_first_visible:
  assumes len: "length b mod 9 = 0"
  shows "vmap_value_loop b anc =
     (case List.find (\<lambda>v. v \<in> set (map record_vid (records b))) anc of
        None \<Rightarrow> Inr (0, False)
      | Some v \<Rightarrow>
          (case List.find (\<lambda>r. record_vid r = v) (records b) of
             None \<Rightarrow> Inr (0, False)
           | Some r \<Rightarrow>
               (case record_label r of Inl e \<Rightarrow> Inl e | Inr label \<Rightarrow> Inr (label, True))))"
proof (induction anc)
  case Nil
  show ?case by simp
next
  case (Cons vid anc)
  show ?case
  proof (cases "find_entry b vid 0")
    case None
    from find_entry_None_vids [OF len None] have "vid \<notin> set (map record_vid (records b))" .
    with None Cons.IH show ?thesis by simp
  next
    case (Some p)
    from find_entry_Some_record [OF len Some] obtain j where
      jl: "j < length (records b)"
      and fnd: "List.find (\<lambda>r. record_vid r = vid) (records b) = Some (records b ! j)"
      and sl: "slice b (p + 1) (p + 9) = Inr (drop 1 (records b ! j))"
      by blast
    from fnd have "record_vid (records b ! j) = vid"
      by (auto simp: find_Some_iff)
    with jl have "vid \<in> set (map record_vid (records b))"
      by (auto simp: in_set_conv_nth intro!: exI [of _ j])
    with Some fnd sl show ?thesis
      by (simp add: record_label_def)
  qed
qed

section \<open>Proofs: SVMap\<close>

lemma allocate_snoc:
  "allocate svm (vs @ [v]) =
     (case allocate svm vs of
        Inl e \<Rightarrow> Inl e
      | Inr s \<Rightarrow> (case createShortVersion s v of Inl e \<Rightarrow> Inl e | Inr (vid, s') \<Rightarrow> Inr s'))"
  by (induction vs arbitrary: svm) (auto split: sum.splits)

lemma allocated_0: "allocated 0 = new_SVMap"
  by (simp add: allocated_def new_SVMap_def)

lemma createShortVersion_allocated:
  assumes n: "n < 255"
  shows "createShortVersion (allocated n) (word_of_nat n) = Inr (word_of_nat n, allocated (Suc n))"
proof -
  from n have u32: "unat (word_of_nat n :: 32 word) = n"
    by (simp add: unat_of_nat)
  from n have u8: "unat (word_of_nat n :: 8 word) = n"
    by (simp add: unat_of_nat)
  have ne: "(word_of_nat n :: 8 word) \<noteq> 255"
  proof
    assume "(word_of_nat n :: 8 word) = 255"
    then have "unat (word_of_nat n :: 8 word) = unat (255 :: 8 word)" by simp
    with u8 n show False by simp
  qed
  have v: "(\<lambda>v::32 word. if unat v < n then Some (word_of_nat (unat v) :: 8 word) else None)
             (word_of_nat n \<mapsto> word_of_nat n)
         = (\<lambda>v. if unat v < Suc n then Some (word_of_nat (unat v)) else None)"
  proof
    fix v :: "32 word"
    show "((\<lambda>v::32 word. if unat v < n then Some (word_of_nat (unat v) :: 8 word) else None)
             (word_of_nat n \<mapsto> word_of_nat n)) v
         = (if unat v < Suc n then Some (word_of_nat (unat v)) else None)"
    proof (cases "v = word_of_nat n")
      case True
      with u32 show ?thesis by simp
    next
      case False
      then have "unat v \<noteq> n" using u32 by (auto simp: word_unat_eq_iff)
      with False show ?thesis by (simp add: less_Suc_eq)
    qed
  qed
  have r: "(\<lambda>i::8 word. if unat i < n then Some (word_of_nat (unat i) :: 32 word) else None)
             (word_of_nat n \<mapsto> word_of_nat n)
         = (\<lambda>i. if unat i < Suc n then Some (word_of_nat (unat i)) else None)"
  proof
    fix i :: "8 word"
    show "((\<lambda>i::8 word. if unat i < n then Some (word_of_nat (unat i) :: 32 word) else None)
             (word_of_nat n \<mapsto> word_of_nat n)) i
         = (if unat i < Suc n then Some (word_of_nat (unat i)) else None)"
    proof (cases "i = word_of_nat n")
      case True
      with u8 show ?thesis by simp
    next
      case False
      then have "unat i \<noteq> n" using u8 by (auto simp: word_unat_eq_iff)
      with False show ?thesis by (simp add: less_Suc_eq)
    qed
  qed
  show ?thesis
    unfolding createShortVersion_def allocated_def
    using u32 ne by (simp add: v r Let_def)
qed

lemma allocate_allocated:
  "n \<le> 255 \<Longrightarrow> allocate new_SVMap (map word_of_nat [0..<n]) = Inr (allocated n)"
proof (induction n)
  case 0
  show ?case by (simp add: allocated_0)
next
  case (Suc n)
  then have "n < 255" and ih: "allocate new_SVMap (map word_of_nat [0..<n]) = Inr (allocated n)"
    by simp_all
  then show ?case
    by (simp add: allocate_snoc createShortVersion_allocated)
qed

lemma versions_allocated_255: "versions (allocated 255) 255 = None"
  by (simp add: allocated_def)

lemma numVersions_allocated_255: "numVersions (allocated 255) = 255"
  by (simp add: allocated_def)

lemma createShortVersion_full:
  "createShortVersion (allocated 255) 255 = Inl VersionLimit"
  by (simp add: createShortVersion_def versions_allocated_255 numVersions_allocated_255)

lemma distinct_versions:
  "distinct (map word_of_nat [0..<255] :: VersionID list)"
  by (auto simp: distinct_map inj_on_def word_of_nat_eq_iff take_bit_nat_eq_self)

text \<open>
  Claim C2 says that short ids can be allocated for 256 distinct versions and that
  only a 257th fails. In the code the check \<open>numVersions == 255\<close> comes before the
  assignment: first writes for the 255 distinct versions \<open>0, \<dots>, 254\<close> succeed and take
  the ids \<open>0, \<dots>, 254\<close>; version 255 is then the 256th distinct version, it has no
  short id, and \<open>MapSupervoxel\<close> for it fails with the version limit error, whatever the
  memory, supervoxel and label.
\<close>

theorem version_limit_255:
  "length (map word_of_nat [0..<255] :: VersionID list) = 255
   \<and> distinct (map word_of_nat [0..<255] :: VersionID list)
   \<and> allocate new_SVMap (map word_of_nat [0..<255]) = Inr (allocated 255)
   \<and> dom (versions (allocated 255)) = {v. unat v < 255}
   \<and> versions (allocated 255) 255 = None
   \<and> MapSupervoxel m (allocated 255) 255 supervoxel label = Inl VersionLimit"
proof -
  have "dom (versions (allocated 255)) = {v. unat v < 255}"
    by (auto simp: allocated_def split: if_splits)
  with distinct_versions show ?thesis
    by (simp add: allocate_allocated versions_allocated_255 MapSupervoxel_def createShortVersion_full)
qed

lemma word8_less_Suc:
  fixes vid i :: "8 word"
  assumes "vid \<noteq> 255"
  shows "(i < vid + 1) = (i = vid \<or> i < vid)"
proof -
  have "1 + vid \<noteq> 0"
  proof
    assume "1 + vid = 0"
    then have "vid = - 1" by (simp add: add_eq_0_iff)
    then have "vid = 255" by simp
    with assms show False by simp
  qed
  then have "unat (1 + vid) = Suc (unat vid)" by (rule unatSuc)
  then have "unat (vid + 1) = Suc (unat vid)" by (simp add: add.commute)
  then show ?thesis
    by (auto simp: word_less_nat_alt word_unat_eq_iff)
qed

lemma createShortVersion_error:
  "createShortVersion svm v = Inl e \<Longrightarrow> e = VersionLimit \<and> versions svm v = None"
  by (auto simp: createShortVersion_def Let_def split: option.splits if_splits)

lemma createShortVersion_success:
  assumes ok: "createShortVersion svm v = Inr (vid, svm')"
  shows "createShortVersion svm' v = Inr (vid, svm')
         \<and> versions svm' v = Some vid
         \<and> (versions svm v = None \<longrightarrow>
               vid = numVersions svm
             \<and> svm' = svm\<lparr>versions := (versions svm)(v \<mapsto> vid),
                           versionsRev := (versionsRev svm)(vid \<mapsto> v),
                           numVersions := numVersions svm + 1\<rparr>)
         \<and> (versions svm v = None \<longrightarrow> ran (versions svm) = {i. i < numVersions svm} \<longrightarrow>
               vid \<notin> ran (versions svm)
             \<and> ran (versions svm') = {i. i < numVersions svm'})"
proof (cases "versions svm v")
  case (Some w)
  with ok have "w = vid" "svm' = svm"
    by (simp_all add: createShortVersion_def)
  with Some show ?thesis
    by (simp add: createShortVersion_def)
next
  case None
  with ok have ne: "numVersions svm \<noteq> 255"
    and vid: "vid = numVersions svm"
    and svm': "svm' = svm\<lparr>versions := (versions svm)(v \<mapsto> vid),
                           versionsRev := (versionsRev svm)(vid \<mapsto> v),
                           numVersions := numVersions svm + 1\<rparr>"
    by (auto simp: createShortVersion_def Let_def split: if_splits)
  have again: "createShortVersion svm' v = Inr (vid, svm')"
    by (simp add: svm' createShortVersion_def)
  have inv: "vid \<notin> ran (versions svm) \<and> ran (versions svm') = {i. i < numVersions svm'}"
    if r: "ran (versions svm) = {i. i < numVersions svm}"
  proof -
    from r vid have 1: "vid \<notin> ran (versions svm)" by simp
    from None have "ran (versions svm') = insert vid (ran (versions svm))"
      by (simp add: svm')
    also have "\<dots> = {i. i < numVersions svm'}"
      using r vid word8_less_Suc [OF ne] by (auto simp: svm')
    finally show ?thesis using 1 by simp
  qed
  from again vid svm' inv None show ?thesis
    by simp
qed

text \<open>
  Allocation in general. A call for a version that has a short id returns that id
  and leaves the SVMap as it is, so a second call returns what the first returned and
  changes neither table nor the count. A first call for a new version succeeds whenever
  the count is not 255: it assigns the count as id, records it in both tables and
  increments the count; when the ids in use are exactly those below the count, this id
  is the next free one and the ids in use afterwards are again exactly those below the
  count. At count 255 a first call for a new version fails with the version limit
  error.
\<close>

lemma createShortVersion_known:
  "versions svm v = Some vid \<Longrightarrow> createShortVersion svm v = Inr (vid, svm)"
  by (simp add: createShortVersion_def)

lemma createShortVersion_new_version:
  "versions svm v = None \<Longrightarrow> numVersions svm \<noteq> 255 \<Longrightarrow>
     createShortVersion svm v
       = Inr (numVersions svm,
              svm\<lparr>versions := (versions svm)(v \<mapsto> numVersions svm),
                   versionsRev := (versionsRev svm)(numVersions svm \<mapsto> v),
                   numVersions := numVersions svm + 1\<rparr>)"
  by (simp add: createShortVersion_def Let_def)

lemma createShortVersion_at_limit:
  "versions svm v = None \<Longrightarrow> numVersions svm = 255 \<Longrightarrow>
     createShortVersion svm v = Inl VersionLimit"
  by (simp add: createShortVersion_def)

lemma createShortVersion_idempotent:
  "(\<forall>e. createShortVersion svm v = Inl e \<longrightarrow> e = VersionLimit \<and> versions svm v = None)
   \<and> (\<forall>vid svm'. createShortVersion svm v = Inr (vid, svm') \<longrightarrow>
          createShortVersion svm' v = Inr (vid, svm')
        \<and> versions svm' v = Some vid
        \<and> (versions svm v = None \<longrightarrow>
              vid = numVersions svm
            \<and> svm' = svm\<lparr>versions := (versions svm)(v \<mapsto> vid),
                          versionsRev := (versionsRev svm)(vid \<mapsto> v),
                          numVersions := numVersions svm + 1\<rparr>)
        \<and> (versions svm v = None \<longrightarrow> ran (versions svm) = {i. i < numVersions svm} \<longrightarrow>
              vid \<notin> ran (versions svm)
            \<and> ran (versions svm') = {i. i < numVersions svm'}))"
proof (intro conjI allI impI)
  fix e assume "createShortVersion svm v = Inl e"
  then show "e = VersionLimit" "versions svm v = None"
    by (simp_all add: createShortVersion_error)
next
  fix vid svm' assume ok: "createShortVersion svm v = Inr (vid, svm')"
  note s = createShortVersion_success [OF ok]
  from s show "createShortVersion svm' v = Inr (vid, svm')" by simp
  from s show "versions svm' v = Some vid" by simp
  { assume n: "versions svm v = None"
    from s n show "vid = numVersions svm" by blast
    from s n
    show "svm' = svm\<lparr>versions := (versions svm)(v \<mapsto> vid),
                          versionsRev := (versionsRev svm)(vid \<mapsto> v),
                          numVersions := numVersions svm + 1\<rparr>" by blast
    assume r: "ran (versions svm) = {i. i < numVersions svm}"
    from s n r show "vid \<notin> ran (versions svm)" by blast
    from s n r show "ran (versions svm') = {i. i < numVersions svm'}" by blast }
qed

lemma ran_versions_allocated_255:
  "ran (versions (allocated 255)) = {i. i < 255}"
proof (intro set_eqI iffI)
  fix i :: uint8
  assume "i \<in> ran (versions (allocated 255))"
  then obtain v :: VersionID where v: "unat v < 255" and i: "i = word_of_nat (unat v)"
    by (auto simp: ran_def allocated_def split: if_splits)
  from v have "unat (word_of_nat (unat v) :: uint8) = unat v"
    by (simp only: unat_of_nat) simp
  with v i show "i \<in> {i. i < 255}"
    by (simp add: word_less_nat_alt)
next
  fix i :: uint8
  assume "i \<in> {i. i < 255}"
  then have lt: "unat i < 255" by (simp add: word_less_nat_alt)
  let ?v = "word_of_nat (unat i) :: VersionID"
  from lt have u: "unat ?v = unat i" by (simp only: unat_of_nat) simp
  have "versions (allocated 255) ?v = Some i"
    using lt u by (simp add: allocated_def)
  then show "i \<in> ran (versions (allocated 255))"
    by (auto simp: ran_def)
qed

text \<open>
  Claim C9 says that allocation is idempotent by version and that a first call for a
  new version assigns the next free id in \<open>0..255\<close> and records it in both tables.
  In the code, after first writes for the 255 distinct versions \<open>0, \<dots>, 254\<close>:
  version 255 is new, the ids in use are exactly \<open>0, \<dots>, 254\<close>, so id 255 is the next
  free id in \<open>0..255\<close>; yet the first call for version 255 assigns no id and fails
  with the version limit error.
\<close>

theorem createShortVersion_full_table:
  "allocate new_SVMap (map word_of_nat [0..<255]) = Inr (allocated 255)
   \<and> versions (allocated 255) 255 = None
   \<and> ran (versions (allocated 255)) = {i. i < 255}
   \<and> createShortVersion (allocated 255) 255 = Inl VersionLimit"
  by (simp add: allocate_allocated versions_allocated_255 createShortVersion_full
      ran_versions_allocated_255)

lemma MapSupervoxel_one: "MapSupervoxel [] new_SVMap 1 6 11 = Inr (mem_one, svm_one)"
proof -
  have a: "createShortVersion new_SVMap 1
             = Inr (0, new_SVMap\<lparr>versions := [1 \<mapsto> 0], versionsRev := [0 \<mapsto> 1], numVersions := 1\<rparr>)"
    by (simp add: createShortVersion_def new_SVMap_def)
  have b: "fm_get (new_SVMap\<lparr>versions := [1 \<mapsto> 0], versionsRev := [0 \<mapsto> 1], numVersions := 1\<rparr>) 6
             = None"
    by (simp add: fm_get_def new_SVMap_def)
  have c: "find_entry [] (0::byte) 0 = None"
    by (simp add: find_entry.simps)
  have d: "vmap_modify [] None 0 11 = Inr (mem_one, Some 0, True)"
    by (simp add: vmap_modify_new bytes_of_def c le64_def mem_one_def)
  show ?thesis
    by (simp add: MapSupervoxel_def a b d) (simp add: new_SVMap_def svm_one_def)
qed

lemma MapSupervoxel_two: "MapSupervoxel mem_one svm_one 2 5 10 = Inr (mem_two, svm_two)"
proof -
  let ?s = "svm_one\<lparr>versions := [1 \<mapsto> 0, 2 \<mapsto> 1], versionsRev := [0 \<mapsto> 1, 1 \<mapsto> 2],
                     numVersions := 2\<rparr>"
  have a: "createShortVersion svm_one 2 = Inr (1, ?s)"
    by (simp add: createShortVersion_def svm_one_def)
  have b: "fm_get ?s 5 = None"
    by (simp add: fm_get_def svm_one_def lookup_update')
  have c: "find_entry [] (1::byte) 0 = None"
    by (simp add: find_entry.simps)
  have d: "vmap_modify mem_one None 1 10 = Inr (mem_two, Some 1, True)"
    by (simp add: vmap_modify_new bytes_of_def c le64_def mem_one_def mem_two_def)
  show ?thesis
    by (simp add: MapSupervoxel_def a b d) (simp add: svm_one_def svm_two_def)
qed

lemma getAncestry_version_1: "getAncestry GetAncestry_two svm_two 1
               = (svm_two\<lparr>ancestry := Some [1 \<mapsto> []]\<rparr>, Inr [0])"
  by (simp add: getAncestry_def GetAncestry_two_def svm_two_def List.map_filter_def Let_def)

lemma getAncestry_version_2: "getAncestry GetAncestry_two svm_two 2
               = (svm_two\<lparr>ancestry := Some [2 \<mapsto> [0]]\<rparr>, Inr [1, 0])"
  by (simp add: getAncestry_def GetAncestry_two_def svm_two_def List.map_filter_def Let_def)

lemma vmap_value_ancestry_1: "vmap_value mem_two (Some 1) [0] = Inr (0, False)"
proof -
  have "find_entry [1, 10, 0, 0, 0, 0, 0, 0, 0] (0::byte) 0 = None"
    by (simp add: find_entry.simps)
  then show ?thesis
    by (simp add: vmap_value_def bytes_of_def mem_two_def)
qed

lemma vmap_value_ancestry_2: "vmap_value mem_two (Some 1) [1, 0] = Inr (10, True)"
proof -
  have "find_entry [1, 10, 0, 0, 0, 0, 0, 0, 0] (1::byte) 0 = Some 0"
    by (simp add: find_entry.simps)
  then show ?thesis
    by (simp add: vmap_value_def bytes_of_def mem_two_def slice_def LittleEndian_Uint64_def)
qed

text \<open>
  \<open>MappedLabel\<close> in general: a supervoxel with no entry in \<open>fm\<close> maps to
  itself with \<open>false\<close>; a supervoxel with a well-formed entry gets what
  \<open>vmap.value\<close> finds along the ancestry, and \<open>(0, false)\<close> when no record of the
  entry belongs to a short version id of the ancestry.
\<close>

lemma MappedLabel_absent:
  assumes "Mapping.lookup (fm svm) s = None"
  shows "MappedLabel GetAncestry m (Some svm) v s = (Some svm, Inr (s, False))"
  using assms by (simp add: MappedLabel_def)

lemma MappedLabel_present:
  assumes look: "Mapping.lookup (fm svm) s = Some vm"
    and anc: "getAncestry GetAncestry svm v = (svm', Inr anc)"
    and len: "length (bytes_of m vm) mod 9 = 0"
  shows "snd (MappedLabel GetAncestry m (Some svm) v s) =
     (case List.find (\<lambda>vid. vid \<in> set (map record_vid (records (bytes_of m vm)))) anc of
        None \<Rightarrow> Inr (0, False)
      | Some vid \<Rightarrow>
          (case List.find (\<lambda>r. record_vid r = vid) (records (bytes_of m vm)) of
             None \<Rightarrow> Inr (0, False)
           | Some r \<Rightarrow>
               (case record_label r of Inl e \<Rightarrow> Inl e | Inr label \<Rightarrow> Inr (label, True))))"
proof -
  from look have "s \<in> Mapping.keys (fm svm)"
    by (auto simp: keys_dom_lookup)
  then have ne: "\<not> Mapping.is_empty (fm svm)"
    by (auto simp: Mapping.is_empty_def)
  have val: "vmap_value m vm anc = vmap_value_loop (bytes_of m vm) anc"
    if "bytes_of m vm \<noteq> []"
    using that by (simp add: vmap_value_def Let_def)
  show ?thesis
  proof (cases "bytes_of m vm = []")
    case True
    then have "records (bytes_of m vm) = []" by (simp add: records_def)
    moreover have "List.find (\<lambda>vid. False) anc = None"
      by (simp add: find_None_iff)
    ultimately show ?thesis
      using True ne by (simp add: MappedLabel_def look anc vmap_value_def)
  next
    case False
    with ne show ?thesis
      by (simp add: MappedLabel_def look anc val vmap_value_loop_first_visible [OF len])
  qed
qed

text \<open>
  Claim C1 says that \<open>MappedLabel\<close> returns the label of the first short version
  id of the ancestry with a record for the supervoxel, and \<open>(s, false)\<close> when no record
  of \<open>s\<close> is visible in the ancestry. In the code, with versions 1 (root) and 2 (child
  of 1): supervoxel 6 is mapped to 11 at version 1 and supervoxel 5 to 10 at version 2.
  At version 2 supervoxel 5 resolves to \<open>(10, true)\<close>. At version 1 supervoxel 5 has
  an entry in \<open>fm\<close> but no record for a short id of the ancestry, and the result is
  \<open>(0, false)\<close>, not \<open>(5, false)\<close>.
\<close>

theorem MappedLabel_no_record_in_ancestry:
  "MapSupervoxel [] new_SVMap 1 6 11 = Inr (mem_one, svm_one)
   \<and> MapSupervoxel mem_one svm_one 2 5 10 = Inr (mem_two, svm_two)
   \<and> snd (MappedLabel GetAncestry_two mem_two (Some svm_two) 2 5) = Inr (10, True)
   \<and> snd (MappedLabel GetAncestry_two mem_two (Some svm_two) 1 5) = Inr (0, False)"
proof -
  have e: "\<not> Mapping.is_empty (fm svm_two)"
    by (simp add: svm_two_def)
  have l: "Mapping.lookup (fm svm_two) 5 = Some (Some 1)"
    by (simp add: svm_two_def lookup_update')
  have m2: "snd (MappedLabel GetAncestry_two mem_two (Some svm_two) 2 5) = Inr (10, True)"
    using vmap_value_ancestry_2 by (simp add: MappedLabel_def e l getAncestry_version_2)
  have m1: "snd (MappedLabel GetAncestry_two mem_two (Some svm_two) 1 5) = Inr (0, False)"
    using vmap_value_ancestry_1 by (simp add: MappedLabel_def e l getAncestry_version_1)
  from MapSupervoxel_one MapSupervoxel_two m2 m1 show ?thesis by simp
qed

section \<open>Proofs: RLE codec\<close>

lemma le32_length: "length (le32 v) = 4"
  by (simp add: le32_def)

lemma ucast_byte32: "(ucast (ucast (v::32 word) :: 8 word) :: 32 word) = take_bit 8 v"
  by (rule bit_word_eqI) (simp add: bit_simps)

lemma cat_byte32:
  "take_bit k (v::32 word) OR push_bit k (take_bit 8 (drop_bit k v)) = take_bit (k + 8) v"
  by (rule bit_word_eqI) (auto simp add: bit_simps)

lemma Uint32_le32: "LittleEndian_Uint32 (le32 v) = v"
proof -
  have "take_bit 8 v OR push_bit 8 (take_bit 8 (drop_bit 8 v))
          OR push_bit 16 (take_bit 8 (drop_bit 16 v))
          OR push_bit 24 (take_bit 8 (drop_bit 24 v)) = take_bit 32 v"
    using cat_byte32 [of 8 v] cat_byte32 [of 16 v] cat_byte32 [of 24 v]
    by (simp add: or.assoc [symmetric])
  moreover have "take_bit 32 v = v"
    by (rule take_bit_word_eq_self) simp
  ultimately show ?thesis
    by (simp add: LittleEndian_Uint32_def le32_def ucast_byte32)
qed

lemma length_encode_run: "length (encode_run r) = 16"
  by (cases r) (auto simp: encode_run_def le32_length)

lemma length_concat_fixed:
  "(\<forall>x\<in>set xs. length (f x) = k) \<Longrightarrow> length (concat (map f xs)) = k * length xs"
  by (induction xs) simp_all

lemma chunk_concat_fixed:
  "(\<forall>x\<in>set xs. length (f x) = k) \<Longrightarrow> i < length xs
     \<Longrightarrow> take k (drop (k * i) (concat (map f xs))) = f (xs ! i)"
proof (induction xs arbitrary: i)
  case Nil
  then show ?case by simp
next
  case (Cons x xs)
  show ?case
  proof (cases i)
    case 0
    with Cons.prems show ?thesis by simp
  next
    case (Suc j)
    with Cons.prems have "take k (drop (k * j) (concat (map f xs))) = f (xs ! j)"
      by (intro Cons.IH) simp_all
    with Cons.prems Suc show ?thesis by simp
  qed
qed

lemma run_lengths_Cons:
  assumes "length r = 16"
  shows "run_lengths (r @ rest) = LittleEndian_Uint32 (take 4 (drop 12 r)) # run_lengths rest"
proof -
  from assms have n: "length (r @ rest) div 16 = Suc (length rest div 16)" by simp
  have "[0..<Suc (length rest div 16)] = 0 # map Suc [0..<length rest div 16]"
    by (simp add: upt_conv_Cons map_Suc_upt del: upt_Suc)
  then show ?thesis
    unfolding run_lengths_def n using assms by (simp add: comp_def add.commute)
qed

lemma run_lengths_Nil: "run_lengths [] = []"
  by (simp add: run_lengths_def)

lemma statsRuns_loop_runs:
  "length buf = 16 * k \<Longrightarrow>
     statsRuns_loop buf nv nr
       = Inr (nv + sum_list (run_lengths buf), nr + word_of_nat k)"
proof (induction k arbitrary: buf nv nr)
  case 0
  then show ?case
    by (subst statsRuns_loop.simps) (simp add: run_lengths_Nil)
next
  case (Suc k)
  let ?r = "take 16 buf" and ?rest = "drop 16 buf"
  from Suc.prems have r: "length ?r = 16" and rest: "length ?rest = 16 * k" by simp_all
  have buf: "buf = ?r @ ?rest" by simp
  have rl: "run_lengths buf = LittleEndian_Uint32 (take 4 (drop 12 ?r)) # run_lengths ?rest"
    using run_lengths_Cons [OF r, of ?rest] by simp
  from Suc.prems have d: "take 4 (drop 12 ?r) = take 4 (drop 12 buf)"
    by (simp add: drop_take)
  from Suc.prems have step: "statsRuns_loop buf nv nr
      = statsRuns_loop ?rest (nv + LittleEndian_Uint32 (take 4 (drop 12 buf))) (nr + 1)"
    by (subst statsRuns_loop.simps) (simp add: Let_def)
  show ?case
    by (simp add: step Suc.IH [OF rest] rl d add.assoc)
qed

lemma statsRuns_eq:
  "statsRuns enc =
     (if length enc mod 16 \<noteq> 0 then Inl MalformedRLE
      else Inr (sum_list (run_lengths enc), word_of_nat (length enc div 16)))"
proof (cases "length enc mod 16 = 0")
  case False
  then show ?thesis by (simp add: statsRuns_def)
next
  case True
  then obtain k where k: "length enc = 16 * k" by (auto simp: mod_eq_0_iff_dvd)
  with statsRuns_loop_runs [OF k, of 0 0] show ?thesis
    by (simp add: statsRuns_def)
qed

lemma run_lengths_encoded:
  "length ss = length ls \<Longrightarrow> run_lengths (concat (map encode_run (zip ss ls))) = ls"
proof (induction ss ls rule: list_induct2)
  case Nil
  show ?case by (simp add: run_lengths_Nil)
next
  case (Cons s ss l ls)
  have "take 4 (drop 12 (encode_run (s, l))) = le32 l"
    by (cases s) (simp add: encode_run_def le32_length)
  with Cons show ?case
    by (simp add: run_lengths_Cons [OF length_encode_run] Uint32_le32)
qed

lemma sint_sum_list:
  "sint (sum_list ws) = signed_take_bit 31 (sum_list (map sint ws))"
  for ws :: "int32 list"
proof (induction ws)
  case Nil
  show ?case by simp
next
  case (Cons w ws)
  have a: "signed_take_bit 31 (sint w) = sint w"
    using sint_ge [of w] sint_lt [of w] by (simp add: signed_take_bit_int_eq_self)
  have "sint (w + sum_list ws) = signed_take_bit 31 (sint w + sint (sum_list ws))"
    by (simp add: sint_word_ariths)
  also have "\<dots> = signed_take_bit 31 (signed_take_bit 31 (sint w)
                        + signed_take_bit 31 (sum_list (map sint ws)))"
    by (simp only: a Cons.IH)
  also have "\<dots> = signed_take_bit 31 (sint w + sum_list (map sint ws))"
    by (rule signed_take_bit_add)
  finally show ?case by simp
qed

lemma sint_word_of_nat_32:
  "sint (word_of_nat n :: int32) = signed_take_bit 31 (int n)"
  by (simp add: signed_of_nat)

lemma run_lengths_zeros:
  "sum_list (run_lengths (replicate n 0)) = 0"
proof -
  have "LittleEndian_Uint32 (take 4 (drop (16 * i + 12) (replicate n 0))) = 0"
    if "i < n div 16" for i
  proof -
    from that have "16 * i + 16 \<le> n" by simp
    then have "take 4 (drop (16 * i + 12) (replicate n (0::byte))) = replicate 4 0"
      by (simp add: min_def)
    then show ?thesis
      by (simp add: LittleEndian_Uint32_def numeral_eq_Suc)
  qed
  then have "run_lengths (replicate n 0) = map (\<lambda>i. 0) [0..<n div 16]"
    by (simp add: run_lengths_def)
  then show ?thesis
    by (simp add: map_replicate_const sum_list_replicate)
qed

lemma run_lengths_two_long_runs: "run_lengths two_long_runs = [0x7fffffff, 0x7fffffff]"
proof -
  have "[0..<2] = [0, 1]" by (simp add: upt_rec)
  then show ?thesis
    by (simp add: run_lengths_def two_long_runs_def LittleEndian_Uint32_def)
qed

text \<open>
  Claim C4, amended. For non-nil slices of run starts and run lengths of equal length
  \<open>n\<close>, \<open>encodeRuns\<close> returns exactly \<open>16 n\<close> bytes, run \<open>i\<close> being the little-endian
  32-bit values \<open>start.x, start.y, start.z, length\<close> at bytes \<open>16 i .. 16 i + 15\<close>, and
  \<open>statsRuns\<close> reads back the \<open>int32\<close> sum of the lengths and \<open>n\<close>; for a nil slice
  of starts or of lengths \<open>encodeRuns\<close> returns an error. On any input \<open>statsRuns\<close>
  fails, with the malformed-RLE error, exactly when the length is not a multiple of 16;
  otherwise it returns the number of runs \<open>len / 16\<close> and the sum of the run lengths
  stored in the input, each reduced to an \<open>int32\<close> (the signed value modulo
  \<open>2^32\<close>): the exact sum whenever that lies between \<open>-2^31\<close> and \<open>2^31 - 1\<close>, and
  exactly \<open>len / 16\<close> whenever that is below \<open>2^31\<close>.
\<close>

theorem encodeRuns_statsRuns:
  "(length ss = length ls \<longrightarrow>
      (\<exists>bs. encodeRuns (Some ss) (Some ls) = Inr bs
          \<and> length bs = 16 * length ss
          \<and> (\<forall>i<length ss. take 16 (drop (16 * i) bs)
                 = (case ss ! i of (x, y, z) \<Rightarrow> le32 x @ le32 y @ le32 z @ le32 (ls ! i)))
          \<and> statsRuns bs = Inr (sum_list ls, word_of_nat (length ss))))
   \<and> statsRuns enc =
        (if length enc mod 16 \<noteq> 0 then Inl MalformedRLE
         else Inr (sum_list (run_lengths enc), word_of_nat (length enc div 16)))
   \<and> sint (sum_list (run_lengths enc))
        = signed_take_bit 31 (sum_list (map sint (run_lengths enc)))
   \<and> sint (word_of_nat (length enc div 16) :: int32)
        = signed_take_bit 31 (int (length enc div 16))
   \<and> (- (2 ^ 31) \<le> sum_list (map sint (run_lengths enc))
        \<and> sum_list (map sint (run_lengths enc)) < 2 ^ 31 \<longrightarrow>
          sint (sum_list (run_lengths enc)) = sum_list (map sint (run_lengths enc)))
   \<and> (length enc div 16 < 2 ^ 31 \<longrightarrow>
          sint (word_of_nat (length enc div 16) :: int32) = int (length enc div 16))
   \<and> encodeRuns None lengths = Inl NilStarts
   \<and> encodeRuns (Some ss) None = Inl NilLengths"
proof (intro conjI impI)
  assume eq: "length ss = length ls"
  let ?bs = "concat (map encode_run (zip ss ls))"
  have enc: "encodeRuns (Some ss) (Some ls) = Inr ?bs"
    using eq by (simp add: encodeRuns_def)
  have all16: "\<forall>r\<in>set (zip ss ls). length (encode_run r) = 16"
    by (simp add: length_encode_run)
  have n: "length ?bs = 16 * length ss"
    using length_concat_fixed [OF all16] eq by simp
  have runs: "\<forall>i<length ss. take 16 (drop (16 * i) ?bs)
                 = (case ss ! i of (x, y, z) \<Rightarrow> le32 x @ le32 y @ le32 z @ le32 (ls ! i))"
  proof (intro allI impI)
    fix i assume i: "i < length ss"
    with eq have "i < length (zip ss ls)" by simp
    from chunk_concat_fixed [OF all16 this] i eq
    have "take 16 (drop (16 * i) ?bs) = encode_run (ss ! i, ls ! i)"
      by simp
    also have "\<dots> = (case ss ! i of (x, y, z) \<Rightarrow> le32 x @ le32 y @ le32 z @ le32 (ls ! i))"
      by (simp add: encode_run_def split: prod.splits)
    finally show "take 16 (drop (16 * i) ?bs)
            = (case ss ! i of (x, y, z) \<Rightarrow> le32 x @ le32 y @ le32 z @ le32 (ls ! i))" .
  qed
  have stats: "statsRuns ?bs = Inr (sum_list ls, word_of_nat (length ss))"
    using n eq by (simp add: statsRuns_eq run_lengths_encoded)
  show "\<exists>bs. encodeRuns (Some ss) (Some ls) = Inr bs
          \<and> length bs = 16 * length ss
          \<and> (\<forall>i<length ss. take 16 (drop (16 * i) bs)
                 = (case ss ! i of (x, y, z) \<Rightarrow> le32 x @ le32 y @ le32 z @ le32 (ls ! i)))
          \<and> statsRuns bs = Inr (sum_list ls, word_of_nat (length ss))"
    by (intro exI [of _ ?bs] conjI) (rule enc n runs stats)+
next
  show "statsRuns enc =
        (if length enc mod 16 \<noteq> 0 then Inl MalformedRLE
         else Inr (sum_list (run_lengths enc), word_of_nat (length enc div 16)))"
    by (rule statsRuns_eq)
next
  show "sint (sum_list (run_lengths enc))
        = signed_take_bit 31 (sum_list (map sint (run_lengths enc)))"
    by (rule sint_sum_list)
next
  show "sint (word_of_nat (length enc div 16) :: int32)
        = signed_take_bit 31 (int (length enc div 16))"
    by (rule sint_word_of_nat_32)
next
  assume "- (2 ^ 31) \<le> sum_list (map sint (run_lengths enc))
        \<and> sum_list (map sint (run_lengths enc)) < 2 ^ 31"
  then show "sint (sum_list (run_lengths enc)) = sum_list (map sint (run_lengths enc))"
    by (simp only: sint_sum_list) (rule signed_take_bit_int_eq_self, simp_all)
next
  assume "length enc div 16 < 2 ^ 31"
  then have "int (length enc div 16) < 2 ^ 31"
    by (metis of_nat_less_iff of_nat_numeral of_nat_power)
  then show "sint (word_of_nat (length enc div 16) :: int32) = int (length enc div 16)"
    by (simp only: sint_word_of_nat_32) (rule signed_take_bit_int_eq_self, simp_all)
next
  show "encodeRuns None lengths = Inl NilStarts"
    by (simp add: encodeRuns_def)
next
  show "encodeRuns (Some ss) None = Inl NilLengths"
    by (simp add: encodeRuns_def)
qed

text \<open>
  The theorem at the single run \<open>(1, 2, 3)\<close> of length 5, and at a three-byte input.
\<close>

theorem encodeRuns_statsRuns_witness:
  "length [(1, 2, 3) :: Point3d] = length [5 :: int32]
   \<and> encodeRuns (Some [(1, 2, 3)]) (Some [5])
       = Inr [1, 0, 0, 0,  2, 0, 0, 0,  3, 0, 0, 0,  5, 0, 0, 0]
   \<and> statsRuns [1, 0, 0, 0,  2, 0, 0, 0,  3, 0, 0, 0,  5, 0, 0, 0] = Inr (5, 1)
   \<and> sint (5 :: int32) = 5
   \<and> statsRuns [1, 0, 0] = Inl MalformedRLE"
proof -
  have e: "encodeRuns (Some [(1, 2, 3)]) (Some [5])
             = Inr [1, 0, 0, 0,  2, 0, 0, 0,  3, 0, 0, 0,  5, 0, 0, 0]"
    by (simp add: encodeRuns_def encode_run_def le32_def)
  from encodeRuns_statsRuns [of "[(1, 2, 3)]" "[5]" "[1, 0, 0]" None] e show ?thesis
    by auto
qed

text \<open>
  Claim C4 as stated fails at three inputs. Nil slices are equal-length slices with 0
  entries, and \<open>encodeRuns\<close> returns an error for them, not 0 bytes. For two runs of
  length \<open>0x7fffffff\<close> the sum of the run lengths is 4294967294, and \<open>statsRuns\<close>
  returns the \<open>int32\<close> value \<open>0xfffffffe\<close>, that is -2. For \<open>2^35\<close> zero bytes
  \<open>len / 16\<close> is 2147483648, and \<open>statsRuns\<close> returns the \<open>int32\<close> value
  \<open>0x80000000\<close>, that is -2147483648, as the number of runs.
\<close>

theorem encodeRuns_statsRuns_counterexample:
  "len (None :: Point3d list option) = len (None :: int32 list option)
   \<and> encodeRuns None None = Inl NilStarts
   \<and> encodeRuns (Some [(0, 0, 0), (0, 0, 0)]) (Some [0x7fffffff, 0x7fffffff]) = Inr two_long_runs
   \<and> statsRuns two_long_runs = Inr (0xfffffffe, 2)
   \<and> sint (0xfffffffe :: int32) = - 2
   \<and> sint (0x7fffffff :: int32) + sint (0x7fffffff :: int32) = 4294967294
   \<and> length (replicate (16 * 2 ^ 31) (0 :: byte)) div 16 = 2147483648
   \<and> statsRuns (replicate (16 * 2 ^ 31) 0) = Inr (0, 0x80000000)
   \<and> sint (0x80000000 :: int32) = - 2147483648"
proof -
  have a: "encodeRuns (Some [(0, 0, 0), (0, 0, 0)]) (Some [0x7fffffff, 0x7fffffff])
             = Inr two_long_runs"
    by (simp add: encodeRuns_def encode_run_def le32_def two_long_runs_def)
  have b: "statsRuns two_long_runs = Inr (0xfffffffe, 2)"
    by (simp add: statsRuns_eq run_lengths_two_long_runs) (simp add: two_long_runs_def)
  have c: "statsRuns (replicate (16 * 2 ^ 31) 0) = Inr (0, 0x80000000)"
    by (simp add: statsRuns_eq run_lengths_zeros)
  from a b c show ?thesis
    by (simp add: len_def encodeRuns_def)
qed

section \<open>Proofs: size index\<close>

lemma chunk_label_1_value: "encodeRuns (Some [(0, 0, 0)]) (Some [5]) = Inr (V chunk_label_1)"
  by (simp add: encodeRuns_def encode_run_def le32_def chunk_label_1_def)

lemma chunk_key_index:
  "index (K chunk_label_1) = [3, 0, 0, 0, 0, 0, 0, 0, 1] @ replicate 12 0"
  by (simp add: chunk_label_1_def NewLabelSpatialMapKey_def be64_def copy_def)

lemma chunk_label_1_slice: "slice (index (K chunk_label_1)) 1 9 = Inr [0, 0, 0, 0, 0, 0, 0, 1]"
  by (simp add: chunk_key_index slice_def)

lemma chunk_label_1_read: "LittleEndian_Uint64 [0, 0, 0, 0, 0, 0, 0, 1] = Inr 0x0100000000000000"
  by (simp add: LittleEndian_Uint64_def)

lemma chunk_label_1_stats: "statsRuns (V chunk_label_1) = Inr (5, 1)"
  by (simp add: statsRuns_def chunk_label_1_def statsRuns_loop.simps LittleEndian_Uint32_def)

text \<open>
  Claim C3 says that after the size pass the size index holds exactly one record per
  mapped label, keyed by the sum of the label's run lengths and the label. In the code,
  with a single label-to-block record for label 1 holding one run of length 5: the label
  is read little-endian from the big-endian key, giving \<open>0x0100000000000000\<close>; since
  \<open>notFirst\<close> starts as \<open>true\<close> and the label read differs from the initial \<open>curLabel\<close>,
  a record \<open>(size 0, label 0)\<close> is put first; the closing \<open>nil\<close> puts
  \<open>(size 5, label 0x0100000000000000)\<close>. The index ends with two records for one label,
  and neither has the key \<open>(size 5, label 1)\<close>.
\<close>

theorem computeSizes_single_label:
  "encodeRuns (Some [(0, 0, 0)]) (Some [5]) = Inr (V chunk_label_1)
   \<and> index (K chunk_label_1) = KeyType_byte KeyLabelSpatialMap # be64 1 @ replicate 12 0
   \<and> computeSizes (Some Commit_ok) 0 [chunk_label_1]
       = (None, \<lparr>puts = [],
                 committed = [(NewLabelSizesKey 0 0 0, []),
                              (NewLabelSizesKey 0 5 0x0100000000000000, [])]\<rparr>)
   \<and> NewLabelSizesKey 0 5 0x0100000000000000 \<noteq> NewLabelSizesKey 0 5 1"
proof -
  have k: "index (K chunk_label_1) = KeyType_byte KeyLabelSpatialMap # be64 1 @ replicate 12 0"
    by (simp add: chunk_label_1_def NewLabelSpatialMapKey_def copy_def)
  have run: "computeSizes (Some Commit_ok) 0 [chunk_label_1]
       = (None, \<lparr>puts = [],
                 committed = [(NewLabelSizesKey 0 0 0, []),
                              (NewLabelSizesKey 0 5 0x0100000000000000, [])]\<rparr>)"
    using chunk_label_1_slice chunk_label_1_read chunk_label_1_stats
    by (simp add: computeSizes_def BATCH_SIZE_def batch_Put_def Commit_ok_def Let_def)
  have ne: "NewLabelSizesKey 0 5 0x0100000000000000 \<noteq> NewLabelSizesKey 0 5 1"
    by (simp add: NewLabelSizesKey_def be64_def)
  from chunk_label_1_value k run ne show ?thesis by simp
qed

section \<open>Proofs: sparse volumes\<close>

lemma foldl_processLabelRuns:
  "foldl processLabelRuns op chunks
     = op\<lparr>numBlocks := numBlocks op + word_of_nat (length chunks),
          encoding := encoding op @ concat (map V chunks),
          numRuns := numRuns op + word_of_nat (sum_list (map (\<lambda>c. length (V c) div 16) chunks))\<rparr>"
proof (induction chunks arbitrary: op)
  case Nil
  show ?case by simp
next
  case (Cons c chunks)
  show ?case
    by (simp add: Cons.IH) (simp add: processLabelRuns_def add.assoc)
qed

lemma sum_div_16:
  assumes "\<forall>v\<in>set vs. length v mod 16 = 0"
  shows "sum_list (map (\<lambda>v. length v div 16) vs) = length (concat vs) div 16"
  using assms
proof (induction vs)
  case Nil
  show ?case by simp
next
  case (Cons v vs)
  from Cons.prems obtain k where k: "length v = 16 * k"
    by (auto simp: mod_eq_0_iff_dvd)
  from Cons.prems have "sum_list (map (\<lambda>v. length v div 16) vs) = length (concat vs) div 16"
    by (intro Cons.IH) simp
  with k show ?case by simp
qed

lemma NewLabelSpatialMapKey_bytes:
  "length block = zyxSize \<Longrightarrow>
     NewLabelSpatialMapKey zyxSize vID label block
       = \<lparr>version = vID, index = 3 # be64 label @ block\<rparr>"
  by (simp add: NewLabelSpatialMapKey_def copy_def)

text \<open>
  Claim C7. For block bounds of the index size, whenever the range scan from the key
  with index \<open>3, label (8 bytes, big-endian), minZYX\<close> to the key with index
  \<open>3, label (8 bytes, big-endian), maxZYX\<close>, both in the version of the UUID, succeeds,
  \<open>GetSparseVol\<close> returns the eight bytes \<open>0, 3, 0, 0, 0, 0, 0, 0\<close> (payload
  descriptor, number of dimensions, run dimension, reserved byte, and the 32-bit voxel
  count left at 0), then at bytes \<open>8 .. 11\<close> the little-endian 32-bit sum of the
  chunks' run counts \<open>len(V) / 16\<close>, then from byte 12 on the chunks' values
  concatenated in the order of the scan. When every value is a whole number of 16-byte
  runs, that sum is the number of runs in the concatenation.
\<close>

theorem GetSparseVol_layout:
  assumes lo: "length minZYX = zyxSize" and hi: "length maxZYX = zyxSize"
    and range: "ProcessRange \<lparr>version = vID, index = 3 # be64 label @ minZYX\<rparr>
                    \<lparr>version = vID, index = 3 # be64 label @ maxZYX\<rparr> = Inr chunks"
  shows "GetSparseVol (Inr vID) (Inr ProcessRange) zyxSize minZYX maxZYX label
           = Inr ([0, 3, 0, 0, 0, 0, 0, 0]
                  @ le32 (word_of_nat (sum_list (map (\<lambda>c. length (V c) div 16) chunks)))
                  @ concat (map V chunks))
         \<and> ((\<forall>c\<in>set chunks. length (V c) mod 16 = 0) \<longrightarrow>
              sum_list (map (\<lambda>c. length (V c) div 16) chunks)
                = length (concat (map V chunks)) div 16)"
proof -
  let ?n = "word_of_nat (sum_list (map (\<lambda>c. length (V c) div 16) chunks)) :: uint32"
  let ?hdr = "[PayloadBinary] @ [3] @ [0] @ [0] @ le32 0 @ le32 0"
  have put: "PutUint32_window (?hdr @ concat (map V chunks)) 8 12 ?n
               = Inr ([0, 3, 0, 0, 0, 0, 0, 0] @ le32 ?n @ concat (map V chunks))"
    by (simp add: PutUint32_window_def le32_length PayloadBinary_def) (simp add: le32_def)
  have sum: "sum_list (map (\<lambda>c. length (V c) div 16) chunks)
               = length (concat (map V chunks)) div 16"
    if "\<forall>c\<in>set chunks. length (V c) mod 16 = 0"
    using sum_div_16 [of "map V chunks"] that by (simp add: comp_def)
  have "GetSparseVol (Inr vID) (Inr ProcessRange) zyxSize minZYX maxZYX label
           = Inr ([0, 3, 0, 0, 0, 0, 0, 0] @ le32 ?n @ concat (map V chunks))"
    unfolding GetSparseVol_def
    using put
    by (simp add: NewLabelSpatialMapKey_bytes [OF lo] NewLabelSpatialMapKey_bytes [OF hi]
        range Let_def foldl_processLabelRuns)
  with sum show ?thesis by blast
qed

lemma scan_label_1:
  "ProcessRange_store store_two_labels
      \<lparr>version = 0, index = 3 # be64 1 @ replicate 12 0\<rparr>
      \<lparr>version = 0, index = 3 # be64 1 @ replicate 12 255\<rparr>
     = Inr (take 2 store_two_labels)"
proof -
  have r0: "replicate 12 (0 :: byte) = [0, 0, 0, 0, 0, 0, 0, 0, 0, 0, 0, 0]"
    and r255: "replicate 12 (255 :: byte)
                 = [255, 255, 255, 255, 255, 255, 255, 255, 255, 255, 255, 255]"
    by (simp_all add: numeral_eq_Suc)
  show ?thesis
    unfolding r0 r255
    by (simp add: ProcessRange_store_def store_two_labels_def be64_def)
qed

text \<open>
  The theorem at the example store, for label 1 and all blocks: the scan yields the
  two chunks of label 1 in key order, and neither the chunk of label 2 nor the size-index
  key; the result has run count 3 and the three runs of label 1.
\<close>

theorem GetSparseVol_layout_witness:
  "length (replicate 12 (0 :: byte)) = 12 \<and> length (replicate 12 (255 :: byte)) = 12
   \<and> ProcessRange_store store_two_labels
        \<lparr>version = 0, index = 3 # be64 1 @ replicate 12 0\<rparr>
        \<lparr>version = 0, index = 3 # be64 1 @ replicate 12 255\<rparr>
       = Inr (take 2 store_two_labels)
   \<and> GetSparseVol (Inr 0) (Inr (ProcessRange_store store_two_labels)) 12
         (replicate 12 0) (replicate 12 255) 1
       = Inr ([0, 3, 0, 0,  0, 0, 0, 0,  3, 0, 0, 0,
               1, 0, 0, 0,  2, 0, 0, 0,  3, 0, 0, 0,  5, 0, 0, 0,
               1, 0, 0, 0,  3, 0, 0, 0,  3, 0, 0, 0,  4, 0, 0, 0,
               32, 0, 0, 0,  2, 0, 0, 0,  3, 0, 0, 0,  7, 0, 0, 0])"
proof -
  have lo: "length (replicate 12 (0 :: byte)) = 12" and hi: "length (replicate 12 (255 :: byte)) = 12"
    by simp_all
  from GetSparseVol_layout [where ProcessRange = "ProcessRange_store store_two_labels"
      and minZYX = "replicate 12 0" and maxZYX = "replicate 12 255" and zyxSize = 12
      and vID = 0 and label = 1 and chunks = "take 2 store_two_labels", OF lo hi scan_label_1]
    scan_label_1 show ?thesis
    by (simp add: store_two_labels_def le32_def)
qed

section \<open>Proofs: tar export and ingest\<close>

lemma partition_loop_all:
  "partition_loop supervoxels i svlist
     = svlist(i mod numHandlers := svlist (i mod numHandlers) @ supervoxels)"
  by (induction supervoxels arbitrary: svlist) (simp_all add: Let_def)

text \<open>
  Claim C6 says that the \<open>i\<close>-th supervoxel goes to worker \<open>i mod 256\<close>, so that no
  worker gets more than \<open>ceil(|set| / 256)\<close> supervoxels. In the code the counter stays
  0: the whole list goes to worker 0 and every other worker gets nothing. For the two
  supervoxels 1 and 2 worker 0 gets both, while \<open>ceil(2 / 256) = 1\<close>.
\<close>

theorem partition_loop_single_worker:
  "partition_loop supervoxels 0 (\<lambda>handler. []) = (\<lambda>handler. [])(0 := supervoxels)
   \<and> length (partition_loop [1, 2] 0 (\<lambda>handler. []) 0) = 2
   \<and> (2 + numHandlers - 1) div numHandlers = 1"
  by (simp add: partition_loop_all numHandlers_def)

lemma concat_worker_0:
  assumes "g [] = []" "0 < n"
  shows "concat (map (\<lambda>i. g (((\<lambda>handler. [])(0 := xs)) i)) [0..<n]) = g xs"
proof -
  from assms(2) have "[0..<n] = 0 # [1..<n]" by (simp add: upt_conv_Cons)
  moreover have "concat (map (\<lambda>i. g (((\<lambda>handler. [])(0 := xs)) i)) [1..<n]) = []"
    using assms(1) by simp
  ultimately show ?thesis by simp
qed

lemma length_getSupervoxelGoroutine:
  "length (getSupervoxelGoroutine db NewTKey Extension svs) = length svs"
  by (induction svs) simp_all

lemma sendTarfile_run:
  assumes "supervoxels \<noteq> []"
  shows "sendTarfile (Inr db) (Some (Inr supervoxels)) None None NewTKey Extension
           = write_loop (getSupervoxelGoroutine db NewTKey Extension supervoxels) []"
proof -
  have "concat (map (\<lambda>i. getSupervoxelGoroutine db NewTKey Extension
                         (((\<lambda>handler. [])(0 := supervoxels)) i)) [0..<numHandlers])
          = getSupervoxelGoroutine db NewTKey Extension supervoxels"
    by (rule concat_worker_0) (simp_all add: numHandlers_def)
  with assms show ?thesis
    by (simp add: sendTarfile_def partition_loop_all length_getSupervoxelGoroutine)
qed

lemma decimal_7: "decimal 7 = ''7''"
  by (simp add: decimal.simps)

lemma decimal_8: "decimal 8 = ''8''"
  by (simp add: decimal.simps)

text \<open>
  Claim C5 says that a supervoxel whose blob is not in the store adds no entry to the
  tar archive. In the code, for the supervoxels 7 and 8 with a blob for 8 only: the
  store answers the key of 7 with nil data and no error, the worker builds a header of
  size 0 for it, and the archive gets the entry \<open>7.dat\<close> with an empty body before
  the entry \<open>8.dat\<close>.
\<close>

theorem sendTarfile_missing_blob:
  "Get db_only_8 (7, ''dat'') = Inr None
   \<and> sendTarfile (Inr db_only_8) (Some (Inr [7, 8])) None None (\<lambda>sv ext. Inr (sv, ext)) ''dat''
       = ([(\<lparr>Name = ''7.dat'', Size = 0, Mode = 493, ModTime = 0\<rparr>, None),
           (\<lparr>Name = ''8.dat'', Size = 3, Mode = 493, ModTime = 0\<rparr>, Some [1, 2, 3])], None)"
  by (simp add: sendTarfile_run db_only_8_def decimal_7 decimal_8 len_def)

lemma ingest_loop_good_prefix:
  "\<forall>x\<in>set pre. good_entry Sscanf NewTKey Put Extension x \<Longrightarrow>
     ingest_loop Sscanf NewTKey Put Extension (pre @ rest) db
       = ingest_loop Sscanf NewTKey Put Extension rest (foldl (store_entry Sscanf NewTKey) db pre)"
proof (induction pre arbitrary: db)
  case Nil
  show ?case by simp
next
  case (Cons x pre)
  from Cons.prems have x: "good_entry Sscanf NewTKey Put Extension x"
    and pre: "\<forall>y\<in>set pre. good_entry Sscanf NewTKey Put Extension y" by simp_all
  have "\<exists>name buf supervoxel. x = Entry name (Inr buf)
          \<and> Sscanf name = Some (supervoxel, Extension) \<and> supervoxel \<noteq> 0
          \<and> Put (NewTKey supervoxel Extension) buf = None"
  proof (cases x)
    case NextError
    with x show ?thesis by simp
  next
    case (Entry name body)
    with x show ?thesis
      by (cases body) (auto split: option.splits)
  qed
  then obtain name buf supervoxel where
    xe: "x = Entry name (Inr buf)" and sc: "Sscanf name = Some (supervoxel, Extension)"
    and nz: "supervoxel \<noteq> 0" and put: "Put (NewTKey supervoxel Extension) buf = None"
    by blast
  have step: "ingest_loop Sscanf NewTKey Put Extension (x # (pre @ rest)) db
      = ingest_loop Sscanf NewTKey Put Extension (pre @ rest) (db(NewTKey supervoxel Extension \<mapsto> buf))"
    by (simp add: xe sc nz put)
  have st: "store_entry Sscanf NewTKey db x = db(NewTKey supervoxel Extension \<mapsto> buf)"
    by (simp add: xe sc)
  show ?case
    by (simp only: append_Cons foldl_Cons step st Cons.IH [OF pre])
qed

lemma ingest_loop_bad_name:
  assumes "\<not> name_ok Sscanf Extension name"
  shows "\<exists>e. ingest_loop Sscanf NewTKey Put Extension (Entry name body # rest) db = (Some e, db)
           \<and> (e = InvalidName \<or> e = BadExtension \<or> e = ReservedSupervoxel)"
  using assms by (auto simp: name_ok_def split: option.splits)

text \<open>
  Claim C8. \<open>ingestTarfile\<close> takes the entries in order. When every entry passes
  the checks, it returns no error and the store holds each entry's bytes under the key
  of its supervoxel and extension (a later entry for the same key replaces an earlier
  one). When entries that pass are followed by an entry whose name does not parse, or
  has another extension, or has supervoxel 0, it returns one of the three errors for
  a bad name, and the store holds the entries before the offending one and nothing
  else: nothing is put for the offending entry or for any entry after it.
\<close>

theorem ingestTarfile_entries:
  assumes good: "\<forall>x\<in>set pre. good_entry Sscanf NewTKey Put Extension x"
  shows "ingestTarfile (Inr db) None Sscanf NewTKey Put Extension pre
           = Inr (None, foldl (store_entry Sscanf NewTKey) db pre)
         \<and> (\<not> name_ok Sscanf Extension name \<longrightarrow>
              (\<exists>e. ingestTarfile (Inr db) None Sscanf NewTKey Put Extension
                      (pre @ Entry name body # rest)
                    = Inr (Some e, foldl (store_entry Sscanf NewTKey) db pre)
                  \<and> (e = InvalidName \<or> e = BadExtension \<or> e = ReservedSupervoxel)))"
proof (intro conjI impI)
  from ingest_loop_good_prefix [OF good, of "[]" db]
  show "ingestTarfile (Inr db) None Sscanf NewTKey Put Extension pre
           = Inr (None, foldl (store_entry Sscanf NewTKey) db pre)"
    by (simp add: ingestTarfile_def)
next
  assume bad: "\<not> name_ok Sscanf Extension name"
  from ingest_loop_bad_name [OF bad, of NewTKey Put body rest "foldl (store_entry Sscanf NewTKey) db pre"]
  show "\<exists>e. ingestTarfile (Inr db) None Sscanf NewTKey Put Extension
                      (pre @ Entry name body # rest)
                    = Inr (Some e, foldl (store_entry Sscanf NewTKey) db pre)
                  \<and> (e = InvalidName \<or> e = BadExtension \<or> e = ReservedSupervoxel)"
    by (simp add: ingestTarfile_def ingest_loop_good_prefix [OF good])
qed

text \<open>
  The theorem at an archive with the files \<open>7.dat\<close>, \<open>0.dat\<close> and \<open>8.dat\<close>.
\<close>

theorem ingestTarfile_entries_witness:
  "good_entry Sscanf_example Pair (\<lambda>tk buf. None) ''dat'' (Entry ''7.dat'' (Inr [1, 2]))
   \<and> \<not> name_ok Sscanf_example ''dat'' ''0.dat''
   \<and> ingestTarfile (Inr Map.empty) None Sscanf_example Pair (\<lambda>tk buf. None) ''dat''
         [Entry ''7.dat'' (Inr [1, 2])]
       = Inr (None, [(7, ''dat'') \<mapsto> [1, 2]])
   \<and> ingestTarfile (Inr Map.empty) None Sscanf_example Pair (\<lambda>tk buf. None) ''dat''
         [Entry ''7.dat'' (Inr [1, 2]), Entry ''0.dat'' (Inr [9]), Entry ''8.dat'' (Inr [3])]
       = Inr (Some ReservedSupervoxel, [(7, ''dat'') \<mapsto> [1, 2]])"
proof -
  have g: "\<forall>x\<in>set [Entry ''7.dat'' (Inr [1, 2])].
             good_entry Sscanf_example Pair (\<lambda>tk buf. None) ''dat'' x"
    by (simp add: Sscanf_example_def)
  have b: "\<not> name_ok Sscanf_example ''dat'' ''0.dat''"
    by (simp add: name_ok_def Sscanf_example_def)
  from ingestTarfile_entries [OF g, of Map.empty "''0.dat''" "Inr [9]" "[Entry ''8.dat'' (Inr [3])]"] g b
  show ?thesis
    by (simp add: Sscanf_example_def ingestTarfile_def)
qed

end
